theory Spec2Isabelle
  imports Main
begin

section \<open>Topology and log model\<close>

text \<open>
  The resolver of \<^verbatim>\<open>ConfigFileFaultController.py\<close> reads a Mininet object through
  \<^verbatim>\<open>net.hosts\<close> and \<^verbatim>\<open>net.links\<close> only. A node is its name and its process id, an
  interface is its name and the node it sits on, a link is its two interfaces.

  A Python \<^verbatim>\<open>str\<close> is modelled as a \<open>string\<close> whose characters are the code points
  0 to 255 (the Latin-1 range); the character classes below are Python's for that range.
\<close>

record Node =
  name :: string
  pid :: int

record Intf =
  intf_name :: string
  node :: Node

record Link =
  intf1 :: Intf
  intf2 :: Intf

record Mininet =
  hosts :: "Node list"
  links :: "Link list"

datatype log_entry = LogDebug string | LogInfo string | LogWarn string | LogError string

section \<open>The two link patterns\<close>

text \<open>
  \<^verbatim>\<open>\w\<close> of a Python 3 \<^verbatim>\<open>str\<close> pattern: the underscore and every character whose
  \<^verbatim>\<open>isalnum()\<close> holds. In the range 0 to 255 these are the ASCII digits and letters,
  and the code points 0xAA, 0xB2, 0xB3, 0xB5, 0xB9, 0xBA, 0xBC to 0xBE, 0xC0 to 0xD6,
  0xD8 to 0xF6 and 0xF8 to 0xFF.
\<close>

definition is_word_char :: "char \<Rightarrow> bool" where
  "is_word_char c =
     (let n = (of_char c :: nat) in
        (48 \<le> n \<and> n \<le> 57) \<or> (65 \<le> n \<and> n \<le> 90) \<or> n = 95 \<or> (97 \<le> n \<and> n \<le> 122)
        \<or> n = 170 \<or> n = 178 \<or> n = 179 \<or> n = 181 \<or> n = 185 \<or> n = 186
        \<or> (188 \<le> n \<and> n \<le> 190) \<or> (192 \<le> n \<and> n \<le> 214)
        \<or> (216 \<le> n \<and> n \<le> 246) \<or> (248 \<le> n \<and> n \<le> 255))"

definition all_word :: "string \<Rightarrow> bool" where
  "all_word s = list_all is_word_char s"

text \<open>
  \<^verbatim>\<open>$\<close> without the MULTILINE flag matches at the end of the string and also just
  before a newline that is the last character.
\<close>

definition at_dollar :: "string \<Rightarrow> bool" where
  "at_dollar r = (r = [] \<or> r = [CHR 0x0A])"

text \<open>
  \<^verbatim>\<open>re.match("^(\w*)->(\w*)$", s)\<close>. No word character is \<^verbatim>\<open>-\<close>, \<^verbatim>\<open>>\<close> or
  \<^verbatim>\<open>:\<close>, so each greedy \<^verbatim>\<open>\w*\<close> can only stop where the run of word characters
  stops: the match is deterministic. The result is \<^verbatim>\<open>match.groups()\<close>.
\<close>

definition match_implicit_link :: "string \<Rightarrow> (string \<times> string) option" where
  "match_implicit_link s =
     (let a = takeWhile is_word_char s; r = dropWhile is_word_char s in
      case r of
        c1 # c2 # r2 \<Rightarrow>
          if c1 = CHR ''-'' \<and> c2 = CHR ''>'' then
            (let b = takeWhile is_word_char r2; r3 = dropWhile is_word_char r2 in
             if at_dollar r3 then Some (a, b) else None)
          else None
      | _ \<Rightarrow> None)"

text \<open>\<^verbatim>\<open>re.match("^(\w*)->(\w*):(\w*)$", s)\<close>.\<close>

definition match_explicit_link :: "string \<Rightarrow> (string \<times> string \<times> string) option" where
  "match_explicit_link s =
     (let a = takeWhile is_word_char s; r = dropWhile is_word_char s in
      case r of
        c1 # c2 # r2 \<Rightarrow>
          if c1 = CHR ''-'' \<and> c2 = CHR ''>'' then
            (let b = takeWhile is_word_char r2; r3 = dropWhile is_word_char r2 in
             case r3 of
               c3 # r4 \<Rightarrow>
                 if c3 = CHR '':'' then
                   (let e = takeWhile is_word_char r4; r5 = dropWhile is_word_char r4 in
                    if at_dollar r5 then Some (a, b, e) else None)
                 else None
             | [] \<Rightarrow> None)
          else None
      | _ \<Rightarrow> None)"

text \<open>\<^verbatim>\<open>_is_string_in_arrow_pattern\<close>\<close>

definition is_string_in_arrow_pattern :: "string \<Rightarrow> bool" where
  "is_string_in_arrow_pattern identifier_string =
     (if match_implicit_link identifier_string \<noteq> None then True
      else if match_explicit_link identifier_string \<noteq> None then True
      else False)"

section \<open>The identifier resolver\<close>

text \<open>Python's truth value of \<^verbatim>\<open>explicit_name\<close>: \<^verbatim>\<open>None\<close> and the empty string are false.\<close>

fun truthy :: "string option \<Rightarrow> bool" where
  "truthy None = False"
| "truthy (Some s) = (s \<noteq> [])"

text \<open>
  The loop \<^verbatim>\<open>for link in net.links\<close> of
  \<^verbatim>\<open>_get_node_and_interface_name_from_identifier_string\<close>. The pair carried along is
  \<^verbatim>\<open>(corresponding_interface_name, corresponding_host)\<close>; a \<^verbatim>\<open>break\<close> returns it
  without looking at the remaining links. \<^verbatim>\<open>nodename_b\<close> is \<^verbatim>\<open>None\<close> for a bare node
  name, and a node's name is never equal to \<^verbatim>\<open>None\<close>.
\<close>

fun scan_links ::
  "string \<Rightarrow> string option \<Rightarrow> string option \<Rightarrow> Link list \<Rightarrow>
   string option \<times> Node option \<Rightarrow> string option \<times> Node option" where
  "scan_links nodename_a nodename_b explicit_name [] acc = acc"
| "scan_links nodename_a nodename_b explicit_name (l # ls) acc =
     (if name (node (intf1 l)) = nodename_a \<and> Some (name (node (intf2 l))) = nodename_b then
        (if truthy explicit_name then
           (if explicit_name = Some (intf_name (intf1 l))
            then (Some (intf_name (intf1 l)), Some (node (intf1 l)))
            else scan_links nodename_a nodename_b explicit_name ls (None, None))
         else scan_links nodename_a nodename_b explicit_name ls
                (Some (intf_name (intf1 l)), Some (node (intf1 l))))
      else if Some (name (node (intf1 l))) = nodename_b \<and> name (node (intf2 l)) = nodename_a then
        (if truthy explicit_name then
           (if explicit_name = Some (intf_name (intf2 l))
            then (Some (intf_name (intf2 l)), Some (node (intf2 l)))
            else scan_links nodename_a nodename_b explicit_name ls (None, None))
         else scan_links nodename_a nodename_b explicit_name ls
                (Some (intf_name (intf2 l)), Some (node (intf2 l))))
      else scan_links nodename_a nodename_b explicit_name ls acc)"

text \<open>How an f-string prints a value that is a string or \<^verbatim>\<open>None\<close>.\<close>

fun fmt :: "string option \<Rightarrow> string" where
  "fmt None = ''None''"
| "fmt (Some s) = s"

text \<open>
  The three-way parse at the head of the resolver: the implicit pattern is tried first,
  then the explicit one, and anything else is a bare node name.
\<close>

definition parse_identifier :: "string \<Rightarrow> string \<times> string option \<times> string option" where
  "parse_identifier identifier_string =
     (case match_implicit_link identifier_string of
        Some (a, b) \<Rightarrow> (a, Some b, None)
      | None \<Rightarrow>
          (case match_explicit_link identifier_string of
             Some (a, b, e) \<Rightarrow> (a, Some b, Some e)
           | None \<Rightarrow> (identifier_string, None, None)))"

text \<open>
  \<^verbatim>\<open>_get_node_and_interface_name_from_identifier_string\<close>. The argument is \<^verbatim>\<open>None\<close>
  for a log command without a host. The result is the returned pair together with the
  warnings written on the way.
\<close>

definition get_node_and_interface_name_from_identifier_string ::
  "Mininet \<Rightarrow> string option \<Rightarrow> (string option \<times> Node option) \<times> log_entry list" where
  "get_node_and_interface_name_from_identifier_string net identifier_string =
     (case identifier_string of
        None \<Rightarrow> ((None, None), [])
      | Some s \<Rightarrow>
          (case parse_identifier s of (nodename_a, nodename_b, explicit_name) \<Rightarrow>
             (case (if nodename_b = None
                    then find (\<lambda>n. name n = nodename_a) (hosts net) else None) of
                Some n \<Rightarrow> ((None, Some n), [])
              | None \<Rightarrow>
                  (case scan_links nodename_a nodename_b explicit_name (links net) (None, None) of
                     (corresponding_interface_name, corresponding_host) \<Rightarrow>
                       if corresponding_interface_name = None then
                         ((None, None),
                          [if truthy explicit_name
                           then LogWarn (''Couldn't find interface '' @ fmt explicit_name
                                  @ '' between hosts '' @ nodename_a @ '' and '' @ fmt nodename_b
                                  @ ''. Are all names correct?...'' @ [CHR 0x0A])
                           else LogWarn (''Couldn't find fitting interface between hosts ''
                                  @ nodename_a @ '' and '' @ fmt nodename_b
                                  @ ''. Are both names correct?...'' @ [CHR 0x0A])])
                       else ((corresponding_interface_name, corresponding_host), [])))))"

text \<open>\<^verbatim>\<open>_get_passable_identifiers_from_node_and_interface_name\<close>\<close>

definition get_passable_identifiers_from_node_and_interface_name ::
  "string option \<Rightarrow> Node option \<Rightarrow> int option \<times> string option" where
  "get_passable_identifiers_from_node_and_interface_name corresponding_interface_name
       corresponding_node =
     (case corresponding_node of
        None \<Rightarrow> (None, None)
      | Some n \<Rightarrow> (Some (pid n), corresponding_interface_name))"

text \<open>
  \<^verbatim>\<open>_get_mininet_agnostic_identifiers_from_identifier_string\<close>: the triple
  \<^verbatim>\<open>(process_group_id, interface_name, identifier_string)\<close>, with the warnings.
\<close>

definition get_mininet_agnostic_identifiers_from_identifier_string ::
  "Mininet \<Rightarrow> string option \<Rightarrow>
   (int option \<times> string option \<times> string option) \<times> log_entry list" where
  "get_mininet_agnostic_identifiers_from_identifier_string net identifier_string =
     (case get_node_and_interface_name_from_identifier_string net identifier_string of
        ((corresponding_interface_name, corresponding_host), lg) \<Rightarrow>
          (case get_passable_identifiers_from_node_and_interface_name
                  corresponding_interface_name corresponding_host of
             (process_group_id, interface_name) \<Rightarrow>
               ((process_group_id, interface_name, identifier_string), lg)))"

text \<open>
  The endpoint of a link that the loop takes for \<^verbatim>\<open>nodename_a\<close> when the link joins
  the two named nodes (\<^verbatim>\<open>intf1\<close> if the link runs from a to b, \<^verbatim>\<open>intf2\<close> if it runs
  from b to a), and the list of these endpoints in the order of \<^verbatim>\<open>net.links\<close>. They
  state what the loop computes; the loop itself is \<open>scan_links\<close>.
\<close>

definition corresponding_side :: "string \<Rightarrow> string \<Rightarrow> Link \<Rightarrow> Intf option" where
  "corresponding_side a b l =
     (if name (node (intf1 l)) = a \<and> name (node (intf2 l)) = b then Some (intf1 l)
      else if name (node (intf1 l)) = b \<and> name (node (intf2 l)) = a then Some (intf2 l)
      else None)"

definition sides :: "string \<Rightarrow> string \<Rightarrow> Link list \<Rightarrow> Intf list" where
  "sides a b ls = List.map_filter (corresponding_side a b) ls"

section \<open>The control channel and the controller side\<close>

definition MESSAGE_SETUP_DONE :: string where
  "MESSAGE_SETUP_DONE = ''m_faultinjector_ready''"

definition MESSAGE_SETUP_ERROR :: string where
  "MESSAGE_SETUP_ERROR = ''m_faultinjector_setuperror''"

definition MESSAGE_START_INJECTING :: string where
  "MESSAGE_START_INJECTING = ''m_faultinjector_go''"

definition MESSAGE_INJECTION_DONE :: string where
  "MESSAGE_INJECTION_DONE = ''m_faultinjector_done''"

definition MESSAGE_WRITE_LOGS :: string where
  "MESSAGE_WRITE_LOGS = ''m_write_logs''"

text \<open>
  One direction of the channel is the queue of the messages written and not yet read.
  \<^verbatim>\<open>send_bytes\<close> appends one message, \<^verbatim>\<open>poll()\<close> tells whether a message is pending
  and returns at once, \<^verbatim>\<open>recv_bytes()\<close> takes the oldest message and blocks on an empty
  queue: \<open>None\<close> is the call that does not return. A message is the encoded string; the
  encoding is injective, so the comparison of two messages is the comparison of the
  strings.
\<close>

type_synonym pipe = "string list"

definition send_bytes :: "pipe \<Rightarrow> string \<Rightarrow> pipe" where
  "send_bytes q m = q @ [m]"

definition poll :: "pipe \<Rightarrow> bool" where
  "poll q = (q \<noteq> [])"

definition recv_bytes :: "pipe \<Rightarrow> (string \<times> pipe) option" where
  "recv_bytes q = (case q of [] \<Rightarrow> None | m # q' \<Rightarrow> Some (m, q'))"

text \<open>
  The fields of \<^verbatim>\<open>ConfigFileFaultControllerStarter\<close> that \<^verbatim>\<open>go\<close> and \<^verbatim>\<open>is_active\<close>
  use. \<open>atexit_registered\<close> counts the exit hooks that \<^verbatim>\<open>go\<close> has registered.
\<close>

record ConfigFileFaultControllerStarter =
  faults_are_active :: bool
  logger_active :: bool
  pipe_mininet_to_faults :: pipe
  pipe_faults_to_mininet :: pipe
  atexit_registered :: nat

text \<open>
  The part of \<^verbatim>\<open>ConfigFileFaultControllerStarter.__init__\<close> that sets up the fields
  above: the flag starts false, and the constructor blocks until it has read the first
  message of the injector, whatever that message is.
\<close>

definition starter_init ::
  "bool \<Rightarrow> pipe \<Rightarrow> (ConfigFileFaultControllerStarter \<times> log_entry list) option" where
  "starter_init has_log from_injector =
     (case recv_bytes from_injector of
        None \<Rightarrow> None
      | Some (response, q) \<Rightarrow>
          Some (\<lparr>faults_are_active = False, logger_active = has_log,
                 pipe_mininet_to_faults = [], pipe_faults_to_mininet = q,
                 atexit_registered = 0\<rparr>,
                [LogDebug (''Fault process started'' @ [CHR 0x0A]),
                 LogDebug (''Received message from FI'' @ [CHR 0x0A]),
                 if response = MESSAGE_SETUP_DONE
                 then LogDebug (''FaultController has signalled that it's ready'' @ [CHR 0x0A])
                 else LogDebug (''FaultController has sent weird message: '' @ response
                        @ [CHR 0x0A])]))"

text \<open>\<^verbatim>\<open>ConfigFileFaultControllerStarter.go\<close>\<close>

definition starter_go :: "ConfigFileFaultControllerStarter \<Rightarrow> ConfigFileFaultControllerStarter" where
  "starter_go self =
     (let self1 = self\<lparr>faults_are_active := True\<rparr>;
          self2 = self1\<lparr>pipe_mininet_to_faults :=
                          send_bytes (pipe_mininet_to_faults self1) MESSAGE_START_INJECTING\<rparr>
      in if logger_active self2
         then self2\<lparr>atexit_registered := Suc (atexit_registered self2)\<rparr>
         else self2)"

text \<open>
  \<^verbatim>\<open>ConfigFileFaultControllerStarter.is_active\<close>: the returned value and the object
  after the call, or \<open>None\<close> if the call blocks.
\<close>

definition is_active ::
  "ConfigFileFaultControllerStarter \<Rightarrow> (bool \<times> ConfigFileFaultControllerStarter) option" where
  "is_active self =
     (if \<not> faults_are_active self then Some (False, self)
      else if poll (pipe_faults_to_mininet self) = False then Some (True, self)
      else
        (case recv_bytes (pipe_faults_to_mininet self) of
           None \<Rightarrow> None
         | Some (potential_done_message, q') \<Rightarrow>
             (let self1 = self\<lparr>pipe_faults_to_mininet := q'\<rparr> in
              if potential_done_message = MESSAGE_INJECTION_DONE
              then Some (False, self1\<lparr>faults_are_active := False\<rparr>)
              else Some (True, self1))))"

text \<open>
  What can happen to the controller object: the caller calls \<^verbatim>\<open>go\<close> or \<^verbatim>\<open>is_active\<close>,
  or the injector process writes a message into the channel. \<open>run\<close> plays a sequence of
  these and collects what the \<^verbatim>\<open>is_active\<close> calls return.
\<close>

datatype event = CallGo | CallIsActive | Arrives string

fun run ::
  "ConfigFileFaultControllerStarter \<Rightarrow> event list \<Rightarrow>
   (bool list \<times> ConfigFileFaultControllerStarter) option" where
  "run self [] = Some ([], self)"
| "run self (CallGo # es) = run (starter_go self) es"
| "run self (Arrives m # es) =
     run (self\<lparr>pipe_faults_to_mininet := send_bytes (pipe_faults_to_mininet self) m\<rparr>) es"
| "run self (CallIsActive # es) =
     (case is_active self of
        None \<Rightarrow> None
      | Some (r, self') \<Rightarrow>
          (case run self' es of
             None \<Rightarrow> None
           | Some (rs, self'') \<Rightarrow> Some (r # rs, self'')))"

section \<open>The injector's run sequence\<close>

text \<open>
  \<^verbatim>\<open>ConfigFileFaultController.go\<close> is one coroutine; what it does, in order, is a list
  of actions. The fault units and the logger are external: of a fault unit the model
  only needs to know whether its \<^verbatim>\<open>go()\<close> runs to completion (\<open>completes\<close>).
  \<^verbatim>\<open>await asyncio.gather(*fault_coroutines)\<close> returns once every unit has completed,
  and never returns normally if one of them does not; then the coroutine goes no
  further. The completions of the units are listed in the order of \<^verbatim>\<open>self.faults\<close>.
\<close>

datatype action =
    Log log_entry
  | CallFaultGo nat
  | CreateLogTask
  | CallListenForLogWrite
  | FaultCompleted nat
  | SendBytes string
  | FaultLoggerStop
  | AwaitLogTask
  | AwaitLogTaskActivator

record ('f, 'l) ConfigFileFaultController =
  faults :: "'f list"
  fault_logger :: "'l option"
  send_pipe_faults_to_mininet :: pipe

definition controller_go ::
  "('f \<Rightarrow> bool) \<Rightarrow> ('f, 'l) ConfigFileFaultController \<Rightarrow>
   action list \<times> ('f, 'l) ConfigFileFaultController" where
  "controller_go completes self =
     (let n = length (faults self);
          scheduled =
            [Log (LogDebug (''Initiating faults'' @ [CHR 0x0A]))]
            @ map CallFaultGo [0..<n]
            @ (if fault_logger self \<noteq> None then [CreateLogTask, CallListenForLogWrite] else [])
            @ [Log (LogDebug (''All faults scheduled.'' @ [CHR 0x0A]))];
          gathered = map FaultCompleted (filter (\<lambda>i. completes (faults self ! i)) [0..<n])
      in if list_all completes (faults self) then
           (scheduled @ gathered @ [SendBytes MESSAGE_INJECTION_DONE]
              @ (if fault_logger self \<noteq> None
                 then [FaultLoggerStop, AwaitLogTask, AwaitLogTaskActivator] else []),
            self\<lparr>send_pipe_faults_to_mininet :=
                    send_bytes (send_pipe_faults_to_mininet self) MESSAGE_INJECTION_DONE\<rparr>)
         else (scheduled @ gathered, self))"

text \<open>The actions of the logger's teardown.\<close>

definition is_logger_teardown :: "action \<Rightarrow> bool" where
  "is_logger_teardown a = (a = FaultLoggerStop \<or> a = AwaitLogTask \<or> a = AwaitLogTaskActivator)"

text \<open>The actions of \<open>controller_go\<close> up to the return of the join.\<close>

definition trace_before_done :: "('f \<Rightarrow> bool) \<Rightarrow> ('f, 'l) ConfigFileFaultController \<Rightarrow> action list" where
  "trace_before_done completes self =
     [Log (LogDebug (''Initiating faults'' @ [CHR 0x0A]))]
     @ map CallFaultGo [0..<length (faults self)]
     @ (if fault_logger self \<noteq> None then [CreateLogTask, CallListenForLogWrite] else [])
     @ [Log (LogDebug (''All faults scheduled.'' @ [CHR 0x0A]))]
     @ map FaultCompleted (filter (\<lambda>i. completes (faults self ! i)) [0..<length (faults self)])"

section \<open>Python values, \<^verbatim>\<open>repr\<close> and \<^verbatim>\<open>literal_eval\<close>\<close>

text \<open>
  The identifiers cross the process boundary as text: the controller side stores
  \<^verbatim>\<open>repr(node_identifying_tuple)\<close> in the configuration, the injector side reads it
  back with \<^verbatim>\<open>ast.literal_eval\<close>. Both are functions of the Python language, not of this
  repository; they are modelled here from the language reference, for the values that
  can occur in such a tuple: \<^verbatim>\<open>None\<close>, integers, strings, and tuples of these.
\<close>

datatype pyval = PyNone | PyInt int | PyStr string | PyTuple "pyval list"

definition digit_char :: "nat \<Rightarrow> char" where
  "digit_char d = char_of (48 + d)"

fun repr_nat :: "nat \<Rightarrow> string" where
  "repr_nat n = (if n < 10 then [digit_char n] else repr_nat (n div 10) @ [digit_char (n mod 10)])"

declare repr_nat.simps [simp del]

definition repr_int :: "int \<Rightarrow> string" where
  "repr_int i = (if i < 0 then CHR ''-'' # repr_nat (nat (- i)) else repr_nat (nat i))"

text \<open>Lower-case hexadecimal digit, as \<^verbatim>\<open>repr\<close> writes it in \<^verbatim>\<open>\xhh\<close>.\<close>

definition hex_char :: "nat \<Rightarrow> char" where
  "hex_char d = (if d < 10 then char_of (48 + d) else char_of (87 + d))"

text \<open>
  \<^verbatim>\<open>str.isprintable\<close> on one character of the range 0 to 255: false for the control
  characters 0x00 to 0x1F and 0x7F to 0x9F, for the no-break space 0xA0 and for the soft
  hyphen 0xAD.
\<close>

definition is_printable :: "char \<Rightarrow> bool" where
  "is_printable c =
     (let n = (of_char c :: nat) in (32 \<le> n \<and> n \<le> 126) \<or> (161 \<le> n \<and> n \<noteq> 173))"

text \<open>
  One character inside the quotes of \<^verbatim>\<open>repr\<close> of a string, in the order of the tests
  of CPython's \<^verbatim>\<open>unicode_repr\<close>: the quote and the backslash are escaped, then tab,
  newline and carriage return, then the other control characters as \<^verbatim>\<open>\xhh\<close>;
  printable ASCII is copied; beyond ASCII a character is copied if it is printable and
  written as \<^verbatim>\<open>\xhh\<close> if not.
\<close>

definition repr_char :: "char \<Rightarrow> char \<Rightarrow> string" where
  "repr_char quote c =
     (let n = (of_char c :: nat) in
      if c = quote \<or> c = CHR 0x5C then [CHR 0x5C, c]
      else if c = CHR 0x09 then [CHR 0x5C, CHR ''t'']
      else if c = CHR 0x0A then [CHR 0x5C, CHR ''n'']
      else if c = CHR 0x0D then [CHR 0x5C, CHR ''r'']
      else if n < 32 \<or> n = 127 then [CHR 0x5C, CHR ''x'', hex_char (n div 16), hex_char (n mod 16)]
      else if n < 127 then [c]
      else if \<not> is_printable c then [CHR 0x5C, CHR ''x'', hex_char (n div 16), hex_char (n mod 16)]
      else [c])"

text \<open>
  \<^verbatim>\<open>repr\<close> of a string: single quotes, unless the string has a single quote and no
  double quote.
\<close>

definition repr_str :: "string \<Rightarrow> string" where
  "repr_str s =
     (let quote = (if CHR 0x27 \<in> set s \<and> CHR 0x22 \<notin> set s then CHR 0x22 else CHR 0x27)
      in quote # concat (map (repr_char quote) s) @ [quote])"

text \<open>\<^verbatim>\<open>sep.join(xs)\<close>\<close>

fun join :: "string \<Rightarrow> string list \<Rightarrow> string" where
  "join sep [] = []"
| "join sep [x] = x"
| "join sep (x # y # ys) = x @ sep @ join sep (y # ys)"

text \<open>\<^verbatim>\<open>repr\<close>; a tuple of one element is written with a trailing comma.\<close>

fun repr :: "pyval \<Rightarrow> string" where
  "repr PyNone = ''None''"
| "repr (PyInt i) = repr_int i"
| "repr (PyStr s) = repr_str s"
| "repr (PyTuple vs) =
     ''('' @ join '', '' (map repr vs) @ (if length vs = 1 then '','' else []) @ '')''"

text \<open>
  The reader. \<open>None\<close> stands for every input that is not read as a value: the inputs on
  which \<^verbatim>\<open>literal_eval\<close> raises, and the literal syntax that the model leaves out
  (floats, other number formats, bytes, lists, dicts and sets, nested tuples, string
  prefixes, triple quotes, adjacent string literals, octal, \<^verbatim>\<open>\N\<close>, \<^verbatim>\<open>\u\<close> and
  unknown escapes, white space other than after a comma). What it reads, it reads as
  Python does.
\<close>

definition hex_val :: "char \<Rightarrow> nat option" where
  "hex_val c =
     (let n = (of_char c :: nat) in
      if 48 \<le> n \<and> n \<le> 57 then Some (n - 48)
      else if 97 \<le> n \<and> n \<le> 102 then Some (n - 87)
      else if 65 \<le> n \<and> n \<le> 70 then Some (n - 55)
      else None)"

text \<open>The one-character escapes of a string literal.\<close>

definition simple_escape :: "char \<Rightarrow> char option" where
  "simple_escape e =
     (if e = CHR 0x5C then Some (CHR 0x5C)
      else if e = CHR 0x27 then Some (CHR 0x27)
      else if e = CHR 0x22 then Some (CHR 0x22)
      else if e = CHR ''a'' then Some (CHR 0x07)
      else if e = CHR ''b'' then Some (CHR 0x08)
      else if e = CHR ''f'' then Some (CHR 0x0C)
      else if e = CHR ''n'' then Some (CHR 0x0A)
      else if e = CHR ''r'' then Some (CHR 0x0D)
      else if e = CHR ''t'' then Some (CHR 0x09)
      else if e = CHR ''v'' then Some (CHR 0x0B)
      else None)"

text \<open>
  The body of a string literal up to its closing quote: the decoded string and the text
  after the quote. A literal in single or double quotes cannot hold a raw newline.
\<close>

fun string_body :: "char \<Rightarrow> string \<Rightarrow> (string \<times> string) option" where
  "string_body quote [] = None"
| "string_body quote (c # cs) =
     (if c = quote then Some ([], cs)
      else if c = CHR 0x0A \<or> c = CHR 0x0D \<or> c = CHR 0x00 then None
      else if c = CHR 0x5C then
        (case cs of
           [] \<Rightarrow> None
         | e # cs1 \<Rightarrow>
             if e = CHR ''x'' then
               (case cs1 of
                  h1 # h2 # cs2 \<Rightarrow>
                    (case (hex_val h1, hex_val h2) of
                       (Some a, Some b) \<Rightarrow>
                         map_option (\<lambda>(s, r). (char_of (16 * a + b) # s, r)) (string_body quote cs2)
                     | _ \<Rightarrow> None)
                | _ \<Rightarrow> None)
             else
               (case simple_escape e of
                  Some ch \<Rightarrow> map_option (\<lambda>(s, r). (ch # s, r)) (string_body quote cs1)
                | None \<Rightarrow> None))
      else map_option (\<lambda>(s, r). (c # s, r)) (string_body quote cs))"

definition is_digit :: "char \<Rightarrow> bool" where
  "is_digit c = (48 \<le> (of_char c :: nat) \<and> (of_char c :: nat) \<le> 57)"

fun digits_val :: "nat \<Rightarrow> string \<Rightarrow> nat" where
  "digits_val acc [] = acc"
| "digits_val acc (c # cs) = digits_val (10 * acc + (of_char c - 48)) cs"

text \<open>
  A decimal integer literal: a run of digits, without a leading zero unless every digit
  is zero, and not running on into a letter, an underscore or a point (which would make
  it another kind of number).
\<close>

definition parse_int :: "string \<Rightarrow> (nat \<times> string) option" where
  "parse_int s =
     (let ds = takeWhile is_digit s; r = dropWhile is_digit s in
      if ds = [] then None
      else if hd ds = CHR ''0'' \<and> \<not> list_all (\<lambda>c. c = CHR ''0'') ds then None
      else if (case r of [] \<Rightarrow> False | c # _ \<Rightarrow> is_word_char c \<or> c = CHR ''.'') then None
      else Some (digits_val 0 ds, r))"

text \<open>\<^verbatim>\<open>None\<close>, a string literal, or a decimal integer with an optional minus sign.\<close>

definition parse_atom :: "string \<Rightarrow> (pyval \<times> string) option" where
  "parse_atom s =
     (case s of
        [] \<Rightarrow> None
      | c # cs \<Rightarrow>
          if c = CHR 0x27 \<or> c = CHR 0x22 then
            (if take 2 cs = [c, c] then None
             else map_option (\<lambda>(str, r). (PyStr str, r)) (string_body c cs))
          else if c = CHR ''-'' then map_option (\<lambda>(n, r). (PyInt (- int n), r)) (parse_int cs)
          else if is_digit c then map_option (\<lambda>(n, r). (PyInt (int n), r)) (parse_int s)
          else if take 4 s = ''None''
                  \<and> \<not> (case drop 4 s of [] \<Rightarrow> False | d # _ \<Rightarrow> is_word_char d) then
            Some (PyNone, drop 4 s)
          else None)"

text \<open>
  Every atom that is read takes at least one character; the reader of the elements of a
  tuple terminates for that reason.
\<close>

lemma string_body_shorter: "string_body q s = Some (str, r) \<Longrightarrow> length r < length s"
proof (induction q s arbitrary: str rule: string_body.induct)
  case (1 quote)
  then show ?case by simp
next
  case (2 quote c cs)
  then show ?case
    by (fastforce split: if_splits list.splits option.splits)
qed

lemma parse_int_shorter: "parse_int s = Some (n, r) \<Longrightarrow> length r < length s"
proof -
  assume a: "parse_int s = Some (n, r)"
  then have "takeWhile is_digit s \<noteq> []" and "r = dropWhile is_digit s"
    by (auto simp: parse_int_def Let_def split: if_splits)
  moreover have "length (takeWhile is_digit s) + length (dropWhile is_digit s) = length s"
    by (metis length_append takeWhile_dropWhile_id)
  ultimately show ?thesis by (cases "takeWhile is_digit s") auto
qed

lemma parse_atom_shorter: "parse_atom s = Some (v, r) \<Longrightarrow> length r < length s"
  by (cases s)
     (auto simp: parse_atom_def split: if_splits dest: string_body_shorter parse_int_shorter)

text \<open>
  The elements of a tuple display after a comma, up to the closing parenthesis; blanks
  may follow a comma.
\<close>

function parse_elements :: "string \<Rightarrow> (pyval list \<times> string) option" where
  "parse_elements s =
     (case dropWhile (\<lambda>c. c = CHR '' '') s of
        [] \<Rightarrow> None
      | c # cs \<Rightarrow>
          if c = CHR '')'' then Some ([], cs)
          else
            (case parse_atom (c # cs) of
               None \<Rightarrow> None
             | Some (v, r) \<Rightarrow>
                 (case r of
                    [] \<Rightarrow> None
                  | d # r1 \<Rightarrow>
                      if d = CHR '')'' then Some ([v], r1)
                      else if d = CHR '','' then
                        map_option (\<lambda>(vs, rest). (v # vs, rest)) (parse_elements r1)
                      else None)))"
  by pat_completeness auto
termination
proof (relation "measure length")
  show "wf (measure length)" by simp
next
  fix s :: string and c cs x v r d r1
  assume a: "dropWhile (\<lambda>c. c = CHR '' '') s = c # cs"
    and b: "parse_atom (c # cs) = Some x" and x: "(v, r) = x" and r: "r = d # r1"
  have "length (c # cs) \<le> length s"
    using a length_dropWhile_le [of "\<lambda>c. c = CHR '' ''" s] by simp
  moreover have "length r < length (c # cs)"
    using b x parse_atom_shorter [of "c # cs" v r] by simp
  ultimately show "(r1, s) \<in> measure length" using r by simp
qed

declare parse_elements.simps [simp del]

text \<open>
  \<^verbatim>\<open>ast.literal_eval\<close> of a string: leading blanks and tabs are stripped; then an atom,
  an atom in parentheses, or a tuple display. Nothing may follow.
\<close>

definition literal_eval :: "string \<Rightarrow> pyval option" where
  "literal_eval node_or_string =
     (let s = dropWhile (\<lambda>c. c = CHR '' '' \<or> c = CHR 0x09) node_or_string;
          finish = (\<lambda>(v, rest). if rest = [] then Some v else None)
      in case s of
           [] \<Rightarrow> None
         | c # cs \<Rightarrow>
             if c = CHR ''('' then
               (case cs of
                  [] \<Rightarrow> None
                | d # cs1 \<Rightarrow>
                    if d = CHR '')'' then finish (PyTuple [], cs1)
                    else
                      (case parse_atom cs of
                         None \<Rightarrow> None
                       | Some (v, r) \<Rightarrow>
                           (case r of
                              [] \<Rightarrow> None
                            | e # r1 \<Rightarrow>
                                if e = CHR '')'' then finish (v, r1)
                                else if e = CHR '','' then
                                  (case parse_elements r1 of
                                     None \<Rightarrow> None
                                   | Some (vs, rest) \<Rightarrow> finish (PyTuple (v # vs), rest))
                                else None)))
             else (case parse_atom s of None \<Rightarrow> None | Some (v, rest) \<Rightarrow> finish (v, rest)))"

text \<open>
  The triple that \<^verbatim>\<open>_get_mininet_agnostic_identifiers_from_identifier_string\<close> returns,
  as a Python value, and lines 91 to 97 of \<^verbatim>\<open>_build_yml_with_mininet_agnostic_identifiers\<close>:
  every identifier of a fault entry is replaced by the \<^verbatim>\<open>repr\<close> of its triple.
\<close>

fun py_int_option :: "int option \<Rightarrow> pyval" where
  "py_int_option None = PyNone"
| "py_int_option (Some i) = PyInt i"

fun py_str_option :: "string option \<Rightarrow> pyval" where
  "py_str_option None = PyNone"
| "py_str_option (Some s) = PyStr s"

definition identifying_tuple :: "int option \<times> string option \<times> string option \<Rightarrow> pyval" where
  "identifying_tuple t =
     (case t of (process_group_id, interface_name, identifier_string) \<Rightarrow>
        PyTuple [py_int_option process_group_id, py_str_option interface_name,
                 py_str_option identifier_string])"

definition new_identifier_strings :: "Mininet \<Rightarrow> string list \<Rightarrow> string list" where
  "new_identifier_strings net identifiers =
     map (\<lambda>identifier_string.
            repr (identifying_tuple
              (fst (get_mininet_agnostic_identifiers_from_identifier_string net
                      (Some identifier_string)))))
         identifiers"

text \<open>A value that is not a tuple; a text at which a run of digits ends.\<close>

definition scalar :: "pyval \<Rightarrow> bool" where
  "scalar v = (case v of PyTuple _ \<Rightarrow> False | _ \<Rightarrow> True)"

definition stops :: "string \<Rightarrow> bool" where
  "stops r = (case r of [] \<Rightarrow> True | c # _ \<Rightarrow> \<not> is_word_char c \<and> c \<noteq> CHR ''.'')"

section \<open>The configuration tree\<close>

text \<open>
  What \<^verbatim>\<open>yaml.safe_load\<close> returns, for the documents the controller reads: null,
  booleans, integers, strings, sequences and mappings with string keys, a mapping in the
  order of its keys. Python's \<^verbatim>\<open>None\<close> is \<open>YNull\<close>.
\<close>

datatype yaml =
    YNull
  | YBool bool
  | YInt int
  | YStr string
  | YSeq "yaml list"
  | YMap "(string \<times> yaml) list"

datatype error = AttributeError | TypeError | IndexError | MalformedLiteral

text \<open>\<^verbatim>\<open>d.get(key, default)\<close> and \<^verbatim>\<open>key in d\<close> on a dict.\<close>

definition dict_get :: "(string \<times> yaml) list \<Rightarrow> string \<Rightarrow> yaml \<Rightarrow> yaml" where
  "dict_get d key dflt = (case map_of d key of Some v \<Rightarrow> v | None \<Rightarrow> dflt)"

definition dict_has :: "(string \<times> yaml) list \<Rightarrow> string \<Rightarrow> bool" where
  "dict_has d key = (map_of d key \<noteq> None)"

text \<open>
  How an f-string prints a configuration value: a string as it is, anything else by its
  \<^verbatim>\<open>repr\<close>.
\<close>

fun yaml_repr :: "yaml \<Rightarrow> string" where
  "yaml_repr YNull = ''None''"
| "yaml_repr (YBool b) = (if b then ''True'' else ''False'')"
| "yaml_repr (YInt i) = repr_int i"
| "yaml_repr (YStr s) = repr_str s"
| "yaml_repr (YSeq xs) = ''['' @ join '', '' (map yaml_repr xs) @ '']''"
| "yaml_repr (YMap kvs) =
     ''{'' @ join '', '' (map (\<lambda>kv. repr_str (fst kv) @ '': '' @ yaml_repr (snd kv)) kvs) @ ''}''"

fun yaml_str :: "yaml \<Rightarrow> string" where
  "yaml_str (YStr s) = s"
| "yaml_str v = yaml_repr v"

section \<open>The injector's configuration\<close>

definition known_protocols :: "string list" where
  "known_protocols = [''ICMP'', ''IGMP'', ''IP'', ''TCP'', ''UDP'', ''IPv6'', ''IPv6-ICMP'', ''any'']"

text \<open>
  \<^verbatim>\<open>_get_target_arguments_from_fault_dict\<close>, on a fault entry that is a dict. The value
  under \<^verbatim>\<open>target_traffic\<close> must have a \<^verbatim>\<open>get\<close> method, which of the configuration
  values only a mapping has. The membership test of the protocol compares with
  \<^verbatim>\<open>==\<close>, so a value that is not a string is never in the list.
\<close>

definition get_target_arguments_from_fault_dict ::
  "(string \<times> yaml) list \<Rightarrow> error + ((yaml \<times> yaml \<times> yaml) \<times> log_entry list)" where
  "get_target_arguments_from_fault_dict fault_dict =
     (if dict_has fault_dict ''target_traffic'' then
        (case dict_get fault_dict ''target_traffic'' YNull of
           YMap traffic_object \<Rightarrow>
             (let fault_target_protocol = dict_get traffic_object ''protocol'' (YStr ''any'');
                  unknown = (fault_target_protocol \<notin> set (map YStr known_protocols));
                  lg = (if unknown
                        then [LogError (''Fault target protocol '' @ yaml_str fault_target_protocol
                                @ '' is unknown, injecting any instead'')]
                        else []);
                  fault_target_protocol = (if unknown then YStr ''any'' else fault_target_protocol);
                  src_port = dict_get traffic_object ''src_port'' YNull;
                  dst_port = dict_get traffic_object ''dst_port'' YNull
              in Inr ((fault_target_protocol, src_port, dst_port), lg))
         | _ \<Rightarrow> Inl AttributeError)
      else Inr ((YStr ''any'', YNull, YNull), []))"

text \<open>The fault units, as the keyword arguments their constructors are given.\<close>

record LinkInjector =
  target_interface :: pyval
  target_namespace_pid :: pyval
  tag :: string
  fault_target_protocol :: yaml
  fault_target_dst_ports :: yaml
  fault_target_src_ports :: yaml
  fault_type :: string
  fault_pattern :: yaml
  fault_args :: yaml
  fault_pattern_args :: yaml
  pre_injection_time :: yaml
  injection_time :: yaml
  post_injection_time :: yaml

record NodeInjector =
  target_process_pid :: pyval
  node_fault_type :: string
  node_tag :: string
  node_pre_injection_time :: yaml
  node_injection_time :: yaml
  node_post_injection_time :: yaml
  node_fault_pattern :: yaml
  node_fault_args :: yaml
  node_fault_pattern_args :: yaml

datatype injector = LinkFault LinkInjector | NodeFault NodeInjector

fun injector_tag :: "injector \<Rightarrow> string" where
  "injector_tag (LinkFault i) = tag i"
| "injector_tag (NodeFault i) = node_tag i"

text \<open>
  \<^verbatim>\<open>re.match("^link_fault:(\w*)$", s)\<close> and \<^verbatim>\<open>re.match("^node_fault:(\w*)$", s)\<close>:
  the captured kind.
\<close>

definition match_after_prefix :: "string \<Rightarrow> string \<Rightarrow> string option" where
  "match_after_prefix prefix s =
     (if take (length prefix) s = prefix then
        (let r = drop (length prefix) s in
         if at_dollar (dropWhile is_word_char r) then Some (takeWhile is_word_char r) else None)
      else None)"

definition match_link_fault :: "string \<Rightarrow> string option" where
  "match_link_fault s = match_after_prefix ''link_fault:'' s"

definition match_node_fault :: "string \<Rightarrow> string option" where
  "match_node_fault s = match_after_prefix ''node_fault:'' s"

text \<open>
  What a \<^verbatim>\<open>for\<close> loop iterates over: the elements of a sequence, the characters of a
  string, the keys of a mapping; anything else is not iterable.
\<close>

fun py_iter :: "yaml \<Rightarrow> error + yaml list" where
  "py_iter (YSeq xs) = Inr xs"
| "py_iter (YStr s) = Inr (map (\<lambda>c. YStr [c]) s)"
| "py_iter (YMap kvs) = Inr (map (\<lambda>kv. YStr (fst kv)) kvs)"
| "py_iter _ = Inl TypeError"

text \<open>
  \<^verbatim>\<open>literal_eval(identifier_string)\<close> on a configuration value; a value that is not a
  string is rejected as a malformed node.
\<close>

fun literal_eval_value :: "yaml \<Rightarrow> error + pyval" where
  "literal_eval_value (YStr s) =
     (case literal_eval s of Some v \<Rightarrow> Inr v | None \<Rightarrow> Inl MalformedLiteral)"
| "literal_eval_value _ = Inl MalformedLiteral"

text \<open>\<^verbatim>\<open>v[i]\<close> for a constant index that is not negative.\<close>

fun subscript :: "pyval \<Rightarrow> nat \<Rightarrow> error + pyval" where
  "subscript (PyTuple vs) i = (if i < length vs then Inr (vs ! i) else Inl IndexError)"
| "subscript (PyStr s) i = (if i < length s then Inr (PyStr [s ! i]) else Inl IndexError)"
| "subscript _ i = Inl TypeError"

text \<open>\<^verbatim>\<open>tag + "@" + node_string_reference\<close>: both operands must be strings.\<close>

fun concat_tag :: "yaml \<Rightarrow> pyval \<Rightarrow> error + string" where
  "concat_tag (YStr t) (PyStr r) = Inr (t @ ''@'' @ r)"
| "concat_tag _ _ = Inl TypeError"

text \<open>The first error of a list of results, or all the values.\<close>

fun sequence :: "(error + 'a) list \<Rightarrow> error + 'a list" where
  "sequence [] = Inr []"
| "sequence (x # xs) =
     (case x of
        Inl e \<Rightarrow> Inl e
      | Inr v \<Rightarrow> (case sequence xs of Inl e \<Rightarrow> Inl e | Inr vs \<Rightarrow> Inr (v # vs)))"

text \<open>
  The body of the loop over the identifiers of a link fault and of a node fault in
  \<^verbatim>\<open>_configByFile\<close>: one fault unit, or the exception raised on the way.
\<close>

definition link_unit ::
  "string \<Rightarrow> yaml \<Rightarrow> yaml \<times> yaml \<times> yaml \<Rightarrow> (string \<times> yaml) list \<Rightarrow> yaml \<Rightarrow> error + injector" where
  "link_unit kind tag_value target fault_dict identifier_string =
     (case literal_eval_value identifier_string of
        Inl e \<Rightarrow> Inl e
      | Inr identifier_tuple \<Rightarrow>
     (case subscript identifier_tuple 0 of
        Inl e \<Rightarrow> Inl e
      | Inr node_process_pid \<Rightarrow>
     (case subscript identifier_tuple 1 of
        Inl e \<Rightarrow> Inl e
      | Inr corresponding_interface_name \<Rightarrow>
     (case subscript identifier_tuple 2 of
        Inl e \<Rightarrow> Inl e
      | Inr node_string_reference \<Rightarrow>
     (case concat_tag tag_value node_string_reference of
        Inl e \<Rightarrow> Inl e
      | Inr actual_tag \<Rightarrow>
          Inr (LinkFault
            \<lparr>target_interface = corresponding_interface_name,
             target_namespace_pid = node_process_pid,
             tag = actual_tag,
             fault_target_protocol = fst target,
             fault_target_dst_ports = snd (snd target),
             fault_target_src_ports = fst (snd target),
             fault_type = kind,
             fault_pattern = dict_get fault_dict ''pattern'' (YStr ''persistent''),
             fault_args = dict_get fault_dict ''type_args'' YNull,
             fault_pattern_args = dict_get fault_dict ''pattern_args'' YNull,
             pre_injection_time = dict_get fault_dict ''pre_injection_time'' YNull,
             injection_time = dict_get fault_dict ''injection_time'' YNull,
             post_injection_time = dict_get fault_dict ''post_injection_time'' YNull\<rparr>))))))"

definition node_unit ::
  "string \<Rightarrow> yaml \<Rightarrow> (string \<times> yaml) list \<Rightarrow> yaml \<Rightarrow> error + injector" where
  "node_unit kind tag_value fault_dict identifier_string =
     (case literal_eval_value identifier_string of
        Inl e \<Rightarrow> Inl e
      | Inr identifier_tuple \<Rightarrow>
     (case subscript identifier_tuple 0 of
        Inl e \<Rightarrow> Inl e
      | Inr node_process_pid \<Rightarrow>
     (case subscript identifier_tuple 2 of
        Inl e \<Rightarrow> Inl e
      | Inr node_string_reference \<Rightarrow>
     (case concat_tag tag_value node_string_reference of
        Inl e \<Rightarrow> Inl e
      | Inr actual_tag \<Rightarrow>
          Inr (NodeFault
            \<lparr>target_process_pid = node_process_pid,
             node_fault_type = kind,
             node_tag = actual_tag,
             node_pre_injection_time = dict_get fault_dict ''pre_injection_time'' YNull,
             node_injection_time = dict_get fault_dict ''injection_time'' YNull,
             node_post_injection_time = dict_get fault_dict ''post_injection_time'' YNull,
             node_fault_pattern = dict_get fault_dict ''pattern'' (YStr ''persistent''),
             node_fault_args = dict_get fault_dict ''type_args'' YNull,
             node_fault_pattern_args = dict_get fault_dict ''pattern_args'' YNull\<rparr>)))))"

text \<open>
  One round of the loop \<^verbatim>\<open>for fault_object in config.get("faults")\<close> of
  \<^verbatim>\<open>_configByFile\<close>: the fault units appended to \<^verbatim>\<open>self.faults\<close>, the log lines, and
  the number of tokens drawn from \<^verbatim>\<open>uuid.uuid4()\<close> so far. \<open>uuid4 k\<close> is the text of
  the k-th token. A fault entry that is not a dict makes one of the first statements
  raise: \<^verbatim>\<open>in\<close> raises TypeError on null, a boolean or an integer, and a string or a
  list has no \<^verbatim>\<open>get\<close>.
\<close>

definition config_fault_object ::
  "(nat \<Rightarrow> string) \<Rightarrow> nat \<Rightarrow> yaml \<Rightarrow> error + (injector list \<times> log_entry list \<times> nat)" where
  "config_fault_object uuid4 k fault_object =
     (case fault_object of
        YMap [] \<Rightarrow> Inl IndexError
      | YMap ((first_key, first_value) # _) \<Rightarrow>
          (case first_value of
             YMap fault_dict \<Rightarrow>
               (case get_target_arguments_from_fault_dict fault_dict of
                  Inl e \<Rightarrow> Inl e
                | Inr (target, lg) \<Rightarrow>
                    (let tag0 = dict_get fault_dict ''tag'' YNull;
                         tag_value = (if tag0 = YNull then YStr (uuid4 k) else tag0);
                         k' = (if tag0 = YNull then Suc k else k)
                     in case dict_get fault_dict ''type'' YNull of
                          YNull \<Rightarrow> Inr ([], lg @ [LogWarn (''No fault type set'' @ [CHR 0x0A])], k')
                        | YStr fault_type_value \<Rightarrow>
                            (case match_link_fault fault_type_value of
                               Some kind \<Rightarrow>
                                 (case py_iter (dict_get fault_dict ''identifiers'' YNull) of
                                    Inl e \<Rightarrow> Inl e
                                  | Inr ids \<Rightarrow>
                                      (case sequence (map (link_unit kind tag_value target fault_dict) ids) of
                                         Inl e \<Rightarrow> Inl e
                                       | Inr units \<Rightarrow> Inr (units, lg, k')))
                             | None \<Rightarrow>
                                 (case match_node_fault fault_type_value of
                                    Some kind \<Rightarrow>
                                      (case py_iter (dict_get fault_dict ''identifiers'' YNull) of
                                         Inl e \<Rightarrow> Inl e
                                       | Inr ids \<Rightarrow>
                                           (case sequence (map (node_unit kind tag_value fault_dict) ids) of
                                              Inl e \<Rightarrow> Inl e
                                            | Inr units \<Rightarrow> Inr (units, lg, k')))
                                  | None \<Rightarrow>
                                      Inr ([], lg @ [LogWarn (''Fault type unknown:'' @ [CHR 0x27]
                                                      @ fault_type_value @ [CHR 0x27, CHR 0x0A])], k')))
                        | _ \<Rightarrow> Inl TypeError))
           | YStr _ \<Rightarrow> Inl AttributeError
           | YSeq _ \<Rightarrow> Inl AttributeError
           | _ \<Rightarrow> Inl TypeError)
      | _ \<Rightarrow> Inl AttributeError)"

text \<open>\<^verbatim>\<open>_configByFile\<close>: the loop over the fault entries, stopped by the first exception.\<close>

fun config_loop ::
  "(nat \<Rightarrow> string) \<Rightarrow> nat \<Rightarrow> yaml list \<Rightarrow> error + (injector list \<times> log_entry list \<times> nat)" where
  "config_loop uuid4 k [] = Inr ([], [], k)"
| "config_loop uuid4 k (fault_object # rest) =
     (case config_fault_object uuid4 k fault_object of
        Inl e \<Rightarrow> Inl e
      | Inr (units, lg, k1) \<Rightarrow>
          (case config_loop uuid4 k1 rest of
             Inl e \<Rightarrow> Inl e
           | Inr (units', lg', k2) \<Rightarrow> Inr (units @ units', lg @ lg', k2)))"

definition configByFile ::
  "(nat \<Rightarrow> string) \<Rightarrow> nat \<Rightarrow> (string \<times> yaml) list \<Rightarrow>
   error + (injector list \<times> log_entry list \<times> nat)" where
  "configByFile uuid4 k config =
     (case py_iter (dict_get config ''faults'' YNull) of
        Inl e \<Rightarrow> Inl e
      | Inr fault_objects \<Rightarrow> config_loop uuid4 k fault_objects)"


section \<open>Examples\<close>

text \<open>
  Two links join \<^verbatim>\<open>h1\<close> and \<^verbatim>\<open>s1\<close>, the second one written from the switch to
  the host. The interface names are made of word characters, as the explicit pattern
  requires.
\<close>

definition example_net :: Mininet where
  "example_net =
     \<lparr>hosts = [\<lparr>name = ''h1'', pid = 101\<rparr>, \<lparr>name = ''h2'', pid = 102\<rparr>],
      links =
        [\<lparr>intf1 = \<lparr>intf_name = ''eth0'', node = \<lparr>name = ''h1'', pid = 101\<rparr>\<rparr>,
          intf2 = \<lparr>intf_name = ''port1'', node = \<lparr>name = ''s1'', pid = 201\<rparr>\<rparr>\<rparr>,
         \<lparr>intf1 = \<lparr>intf_name = ''port2'', node = \<lparr>name = ''s1'', pid = 201\<rparr>\<rparr>,
          intf2 = \<lparr>intf_name = ''eth1'', node = \<lparr>name = ''h1'', pid = 101\<rparr>\<rparr>\<rparr>,
         \<lparr>intf1 = \<lparr>intf_name = ''eth0'', node = \<lparr>name = ''h2'', pid = 102\<rparr>\<rparr>,
          intf2 = \<lparr>intf_name = ''port3'', node = \<lparr>name = ''s1'', pid = 201\<rparr>\<rparr>\<rparr>]\<rparr>"

text \<open>A controller object as the constructor leaves it, with logging configured.\<close>

definition example_starter :: ConfigFileFaultControllerStarter where
  "example_starter =
     \<lparr>faults_are_active = False, logger_active = True, pipe_mininet_to_faults = [],
      pipe_faults_to_mininet = [], atexit_registered = 0\<rparr>"

text \<open>Two fault units that both complete (a unit is its own completion flag) and a logger.\<close>

definition example_controller :: "(bool, unit) ConfigFileFaultController" where
  "example_controller =
     \<lparr>faults = [True, True], fault_logger = Some (), send_pipe_faults_to_mininet = []\<rparr>"

text \<open>
  A fault entry as the injector receives it: the identifiers are the texts that the
  controller side has written for \<^verbatim>\<open>h1->s1\<close> and \<^verbatim>\<open>h2\<close> on the example topology,
  and the protocol is one that the injector does not know.
\<close>

definition example_fault_dict :: "(string \<times> yaml) list" where
  "example_fault_dict =
     [(''type'', YStr ''link_fault:delay''),
      (''identifiers'', YSeq (map YStr (new_identifier_strings example_net [''h1->s1'', ''h2'']))),
      (''tag'', YStr ''slow''),
      (''target_traffic'', YMap [(''protocol'', YStr ''SCTP''), (''dst_port'', YInt 80)])]"

definition example_fault_object :: yaml where
  "example_fault_object = YMap [(''link_fault'', YMap example_fault_dict)]"

text \<open>A token supply that always gives the same text.\<close>

definition example_uuid4 :: "nat \<Rightarrow> string" where
  "example_uuid4 k = ''uuid''"

section \<open>Lemmas on the patterns and on the link scan\<close>

lemma not_word_chars [simp]:
  "\<not> is_word_char (CHR ''-'')" "\<not> is_word_char (CHR ''>'')" "\<not> is_word_char (CHR '':'')"
  "\<not> is_word_char (CHR 0x0A)"
  by (simp_all add: is_word_char_def)

lemma takeWhile_word [simp]:
  "all_word a \<Longrightarrow> \<not> is_word_char c \<Longrightarrow> takeWhile is_word_char (a @ c # r) = a"
  by (induction a) (auto simp: all_word_def)

lemma dropWhile_word [simp]:
  "all_word a \<Longrightarrow> \<not> is_word_char c \<Longrightarrow> dropWhile is_word_char (a @ c # r) = c # r"
  by (induction a) (auto simp: all_word_def)

lemma takeWhile_word_all [simp]: "all_word a \<Longrightarrow> takeWhile is_word_char a = a"
  by (induction a) (auto simp: all_word_def)

lemma dropWhile_word_all [simp]: "all_word a \<Longrightarrow> dropWhile is_word_char a = []"
  by (induction a) (auto simp: all_word_def)

lemma all_word_Ball [simp]: "all_word a \<Longrightarrow> Ball (set a) is_word_char"
  by (simp add: all_word_def list_all_iff)

lemma match_implicit_arrow:
  "all_word a \<Longrightarrow> all_word b \<Longrightarrow> match_implicit_link (a @ CHR ''-'' # CHR ''>'' # b) = Some (a, b)"
  by (simp add: match_implicit_link_def at_dollar_def)

lemma match_implicit_colon:
  "all_word a \<Longrightarrow> all_word b \<Longrightarrow> match_implicit_link (a @ CHR ''-'' # CHR ''>'' # b @ CHR '':'' # i) = None"
  by (simp add: match_implicit_link_def at_dollar_def)

lemma match_explicit_colon:
  "all_word a \<Longrightarrow> all_word b \<Longrightarrow> all_word i \<Longrightarrow>
   match_explicit_link (a @ CHR ''-'' # CHR ''>'' # b @ CHR '':'' # i) = Some (a, b, i)"
  by (simp add: match_explicit_link_def at_dollar_def)

lemma scan_links_bare: "scan_links a None e ls acc = acc"
  by (induction ls arbitrary: acc) simp_all

lemma sides_Cons:
  "sides a b (l # ls) = (case corresponding_side a b l of None \<Rightarrow> sides a b ls | Some s \<Rightarrow> s # sides a b ls)"
  by (simp add: sides_def List.map_filter_simps split: option.splits)

lemma sides_Nil [simp]: "sides a b [] = []"
  by (simp add: sides_def List.map_filter_simps)

lemma scan_links_Cons:
  "scan_links a (Some b) e (l # ls) acc =
     (case corresponding_side a b l of
        None \<Rightarrow> scan_links a (Some b) e ls acc
      | Some s \<Rightarrow>
          if truthy e then
            (if e = Some (intf_name s) then (Some (intf_name s), Some (node s))
             else scan_links a (Some b) e ls (None, None))
          else scan_links a (Some b) e ls (Some (intf_name s), Some (node s)))"
  by (simp add: corresponding_side_def)

lemma scan_links_implicit:
  "\<not> truthy e \<Longrightarrow>
   scan_links a (Some b) e ls acc =
     (if sides a b ls = [] then acc
      else (Some (intf_name (last (sides a b ls))), Some (node (last (sides a b ls)))))"
proof (induction ls arbitrary: acc)
  case Nil
  show ?case by simp
next
  case (Cons l ls)
  show ?case
  proof (cases "corresponding_side a b l")
    case None
    then show ?thesis using Cons.IH [OF Cons.prems]
      by (simp add: scan_links_Cons sides_Cons del: scan_links.simps)
  next
    case (Some s)
    then show ?thesis using Cons.IH [OF Cons.prems] Cons.prems
      by (simp add: scan_links_Cons sides_Cons del: scan_links.simps)
  qed
qed

lemma scan_links_explicit:
  "i \<noteq> [] \<Longrightarrow>
   scan_links a (Some b) (Some i) ls acc =
     (case find (\<lambda>s. intf_name s = i) (sides a b ls) of
        Some s \<Rightarrow> (Some i, Some (node s))
      | None \<Rightarrow> if sides a b ls = [] then acc else (None, None))"
proof (induction ls arbitrary: acc)
  case Nil
  show ?case by simp
next
  case (Cons l ls)
  show ?case
  proof (cases "corresponding_side a b l")
    case None
    then show ?thesis using Cons.IH [OF Cons.prems]
      by (simp add: scan_links_Cons sides_Cons del: scan_links.simps)
  next
    case (Some s)
    then show ?thesis using Cons.IH [OF Cons.prems] Cons.prems
      by (auto simp add: scan_links_Cons sides_Cons simp del: scan_links.simps split: option.splits)
  qed
qed

lemma resolve_link:
  assumes "parse_identifier s = (a, Some b, e)"
  shows "fst (get_mininet_agnostic_identifiers_from_identifier_string net (Some s)) =
     (case scan_links a (Some b) e (links net) (None, None) of
        (None, _) \<Rightarrow> (None, None, Some s)
      | (Some i, None) \<Rightarrow> (None, None, Some s)
      | (Some i, Some n) \<Rightarrow> (Some (pid n), Some i, Some s))"
proof (cases "scan_links a (Some b) e (links net) (None, None)")
  case (Pair cin ch)
  then show ?thesis using assms
    by (cases cin; cases ch)
       (simp_all add: get_mininet_agnostic_identifiers_from_identifier_string_def
          get_node_and_interface_name_from_identifier_string_def
          get_passable_identifiers_from_node_and_interface_name_def)
qed

lemma resolve_implicit:
  assumes "all_word a" "all_word b"
  shows "fst (get_mininet_agnostic_identifiers_from_identifier_string net
               (Some (a @ CHR ''-'' # CHR ''>'' # b))) =
     (if sides a b (links net) = [] then (None, None, Some (a @ CHR ''-'' # CHR ''>'' # b))
      else (Some (pid (node (last (sides a b (links net))))),
            Some (intf_name (last (sides a b (links net)))),
            Some (a @ CHR ''-'' # CHR ''>'' # b)))"
proof -
  have p: "parse_identifier (a @ CHR ''-'' # CHR ''>'' # b) = (a, Some b, None)"
    using assms by (simp add: parse_identifier_def match_implicit_arrow)
  show ?thesis
    by (simp add: resolve_link [OF p] scan_links_implicit)
qed

lemma resolve_explicit:
  assumes "all_word a" "all_word b" "all_word i" "i \<noteq> []"
  shows "fst (get_mininet_agnostic_identifiers_from_identifier_string net
               (Some (a @ CHR ''-'' # CHR ''>'' # b @ CHR '':'' # i))) =
     (case find (\<lambda>s. intf_name s = i) (sides a b (links net)) of
        Some s \<Rightarrow> (Some (pid (node s)), Some i,
                   Some (a @ CHR ''-'' # CHR ''>'' # b @ CHR '':'' # i))
      | None \<Rightarrow> (None, None, Some (a @ CHR ''-'' # CHR ''>'' # b @ CHR '':'' # i)))"
proof -
  have p: "parse_identifier (a @ CHR ''-'' # CHR ''>'' # b @ CHR '':'' # i) = (a, Some b, Some i)"
    using assms by (simp add: parse_identifier_def match_implicit_colon match_explicit_colon)
  show ?thesis using assms(4)
    by (simp add: resolve_link [OF p] scan_links_explicit split: option.splits)
qed

lemma resolve_empty_explicit:
  assumes "all_word a" "all_word b"
  shows "get_node_and_interface_name_from_identifier_string net
               (Some (a @ CHR ''-'' # CHR ''>'' # b @ [CHR '':'']))
       = get_node_and_interface_name_from_identifier_string net
               (Some (a @ CHR ''-'' # CHR ''>'' # b))"
proof -
  have p1: "parse_identifier (a @ CHR ''-'' # CHR ''>'' # b) = (a, Some b, None)"
    using assms by (simp add: parse_identifier_def match_implicit_arrow)
  have "all_word []" by (simp add: all_word_def)
  then have p2: "parse_identifier (a @ CHR ''-'' # CHR ''>'' # b @ [CHR '':'']) = (a, Some b, Some [])"
    using assms match_implicit_colon [of a b "[]"] match_explicit_colon [of a b "[]"]
    by (simp add: parse_identifier_def)
  have "scan_links a (Some b) (Some []) (links net) (None, None) =
        scan_links a (Some b) None (links net) (None, None)"
    by (simp add: scan_links_implicit)
  then show ?thesis
    by (simp add: get_node_and_interface_name_from_identifier_string_def p1 p2)
qed

lemma resolve_bare:
  assumes "match_implicit_link h = None" "match_explicit_link h = None"
  shows "fst (get_mininet_agnostic_identifiers_from_identifier_string net (Some h)) =
     (case find (\<lambda>n. name n = h) (hosts net) of
        Some n \<Rightarrow> (Some (pid n), None, Some h)
      | None \<Rightarrow> (None, None, Some h))"
  using assms
  by (simp add: get_mininet_agnostic_identifiers_from_identifier_string_def
      get_node_and_interface_name_from_identifier_string_def parse_identifier_def
      get_passable_identifiers_from_node_and_interface_name_def scan_links_bare
      split: option.splits)

lemma set_sides: "set (sides a b ls) = {s. \<exists>l\<in>set ls. corresponding_side a b l = Some s}"
proof (induction ls)
  case Nil
  show ?case by simp
next
  case (Cons l ls)
  then show ?case by (cases "corresponding_side a b l") (auto simp: sides_Cons)
qed

lemma all_word_example [simp]:
  "all_word ''h1''" "all_word ''s1''" "all_word ''eth0''" "all_word ''eth1''" "all_word []"
  by (simp_all add: all_word_def is_word_char_def)

lemma sides_example:
  "sides ''h1'' ''s1'' (links example_net) =
     [\<lparr>intf_name = ''eth0'', node = \<lparr>name = ''h1'', pid = 101\<rparr>\<rparr>,
      \<lparr>intf_name = ''eth1'', node = \<lparr>name = ''h1'', pid = 101\<rparr>\<rparr>]"
  by (simp add: sides_def List.map_filter_simps corresponding_side_def example_net_def)

text \<open>
  The two matchers accept exactly the strings of their patterns: word characters, the
  arrow, word characters (and for the explicit pattern a colon and word characters), and
  at most one final newline; the groups are the runs of word characters.
\<close>

lemma all_word_takeWhile: "all_word (takeWhile is_word_char s)"
  by (auto simp: all_word_def list_all_iff dest: set_takeWhileD)

lemma match_implicit_newline:
  "all_word a \<Longrightarrow> all_word b \<Longrightarrow>
   match_implicit_link (a @ CHR ''-'' # CHR ''>'' # b @ [CHR 0x0A]) = Some (a, b)"
  by (simp add: match_implicit_link_def at_dollar_def)

lemma match_explicit_newline:
  "all_word a \<Longrightarrow> all_word b \<Longrightarrow> all_word i \<Longrightarrow>
   match_explicit_link (a @ CHR ''-'' # CHR ''>'' # b @ CHR '':'' # i @ [CHR 0x0A]) = Some (a, b, i)"
  by (simp add: match_explicit_link_def at_dollar_def)

lemma match_implicit_link_iff:
  "match_implicit_link s = Some (a, b) \<longleftrightarrow>
     all_word a \<and> all_word b \<and> (s = a @ ''->'' @ b \<or> s = a @ ''->'' @ b @ [CHR 0x0A])"
proof
  assume m: "match_implicit_link s = Some (a, b)"
  obtain r2 where r: "dropWhile is_word_char s = CHR ''-'' # CHR ''>'' # r2"
    using m by (auto simp: match_implicit_link_def Let_def split: list.splits if_splits)
  have a: "a = takeWhile is_word_char s" and b: "b = takeWhile is_word_char r2"
    and e: "at_dollar (dropWhile is_word_char r2)"
    using m r by (auto simp: match_implicit_link_def Let_def split: if_splits)
  have "s = a @ CHR ''-'' # CHR ''>'' # r2"
    using takeWhile_dropWhile_id [of is_word_char s] a r by simp
  moreover have "r2 = b @ dropWhile is_word_char r2"
    using takeWhile_dropWhile_id [of is_word_char r2] b by simp
  ultimately have s: "s = a @ CHR ''-'' # CHR ''>'' # b @ dropWhile is_word_char r2"
    by simp
  have w: "all_word a" "all_word b"
    unfolding a b by (rule all_word_takeWhile)+
  have "dropWhile is_word_char r2 = [] \<or> dropWhile is_word_char r2 = [CHR 0x0A]"
    using e by (simp add: at_dollar_def)
  then have "s = a @ ''->'' @ b \<or> s = a @ ''->'' @ b @ [CHR 0x0A]"
    using s by (elim disjE) simp_all
  then show "all_word a \<and> all_word b \<and> (s = a @ ''->'' @ b \<or> s = a @ ''->'' @ b @ [CHR 0x0A])"
    using w by simp
next
  assume "all_word a \<and> all_word b \<and> (s = a @ ''->'' @ b \<or> s = a @ ''->'' @ b @ [CHR 0x0A])"
  then show "match_implicit_link s = Some (a, b)"
    using match_implicit_arrow [of a b] match_implicit_newline [of a b] by auto
qed

lemma match_explicit_link_iff:
  "match_explicit_link s = Some (a, b, i) \<longleftrightarrow>
     all_word a \<and> all_word b \<and> all_word i \<and>
     (s = a @ ''->'' @ b @ '':'' @ i \<or> s = a @ ''->'' @ b @ '':'' @ i @ [CHR 0x0A])"
proof
  assume m: "match_explicit_link s = Some (a, b, i)"
  obtain r2 where r: "dropWhile is_word_char s = CHR ''-'' # CHR ''>'' # r2"
    using m by (auto simp: match_explicit_link_def Let_def split: list.splits if_splits)
  obtain r4 where r': "dropWhile is_word_char r2 = CHR '':'' # r4"
    using m r by (auto simp: match_explicit_link_def Let_def split: list.splits if_splits)
  have a: "a = takeWhile is_word_char s" and b: "b = takeWhile is_word_char r2"
    and i: "i = takeWhile is_word_char r4"
    and e: "at_dollar (dropWhile is_word_char r4)"
    using m r r' by (auto simp: match_explicit_link_def Let_def split: if_splits)
  have "s = a @ CHR ''-'' # CHR ''>'' # r2"
    using takeWhile_dropWhile_id [of is_word_char s] a r by simp
  moreover have "r2 = b @ CHR '':'' # r4"
    using takeWhile_dropWhile_id [of is_word_char r2] b r' by simp
  moreover have "r4 = i @ dropWhile is_word_char r4"
    using takeWhile_dropWhile_id [of is_word_char r4] i by simp
  ultimately have s: "s = a @ CHR ''-'' # CHR ''>'' # b @ CHR '':'' # i @ dropWhile is_word_char r4"
    by simp
  have w: "all_word a" "all_word b" "all_word i"
    unfolding a b i by (rule all_word_takeWhile)+
  have "dropWhile is_word_char r4 = [] \<or> dropWhile is_word_char r4 = [CHR 0x0A]"
    using e by (simp add: at_dollar_def)
  then have "s = a @ ''->'' @ b @ '':'' @ i \<or> s = a @ ''->'' @ b @ '':'' @ i @ [CHR 0x0A]"
    using s by (elim disjE) simp_all
  then show "all_word a \<and> all_word b \<and> all_word i \<and>
     (s = a @ ''->'' @ b @ '':'' @ i \<or> s = a @ ''->'' @ b @ '':'' @ i @ [CHR 0x0A])"
    using w by simp
next
  assume "all_word a \<and> all_word b \<and> all_word i \<and>
     (s = a @ ''->'' @ b @ '':'' @ i \<or> s = a @ ''->'' @ b @ '':'' @ i @ [CHR 0x0A])"
  then show "match_explicit_link s = Some (a, b, i)"
    using match_explicit_colon [of a b i] match_explicit_newline [of a b i] by auto
qed

section \<open>The resolver: claims\<close>

text \<open>
  C1, as amended. For a reference \<^verbatim>\<open>a->b:i\<close> whose interface name \<open>i\<close> is not empty,
  the resolver returns either \<open>i\<close> itself with the process id of the node that the
  interface sits on, this interface being the endpoint on the side of \<open>a\<close> of a link
  between \<open>a\<close> and \<open>b\<close>, or the absent identifier; it returns the absent identifier
  when no link between \<open>a\<close> and \<open>b\<close> has an endpoint named \<open>i\<close>, and it returns \<open>i\<close>
  when a link between them has its endpoint on the side of \<open>a\<close> named \<open>i\<close>. The
  interface name returned is never a name other than \<open>i\<close>.
\<close>

theorem explicit_reference_resolution:
  assumes "all_word a" and "all_word b" and "all_word i" and "i \<noteq> []"
    and "ref = a @ ''->'' @ b @ '':'' @ i"
  shows "match_implicit_link ref = None \<and> match_explicit_link ref = Some (a, b, i) \<and>
     (fst (get_mininet_agnostic_identifiers_from_identifier_string net (Some ref))
        = (None, None, Some ref)
      \<or> (\<exists>s\<in>set (sides a b (links net)). intf_name s = i \<and>
            fst (get_mininet_agnostic_identifiers_from_identifier_string net (Some ref))
              = (Some (pid (node s)), Some i, Some ref))) \<and>
     ((\<forall>l\<in>set (links net). corresponding_side a b l \<noteq> None \<longrightarrow>
          intf_name (intf1 l) \<noteq> i \<and> intf_name (intf2 l) \<noteq> i) \<longrightarrow>
        fst (get_mininet_agnostic_identifiers_from_identifier_string net (Some ref))
          = (None, None, Some ref)) \<and>
     ((\<exists>s\<in>set (sides a b (links net)). intf_name s = i) \<longrightarrow>
        fst (snd (fst (get_mininet_agnostic_identifiers_from_identifier_string net (Some ref))))
          = Some i)"
proof -
  have r: "ref = a @ CHR ''-'' # CHR ''>'' # b @ CHR '':'' # i"
    using assms(5) by simp
  let ?res = "fst (get_mininet_agnostic_identifiers_from_identifier_string net (Some ref))"
  let ?f = "find (\<lambda>s. intf_name s = i) (sides a b (links net))"
  have res: "?res = (case ?f of Some s \<Rightarrow> (Some (pid (node s)), Some i, Some ref)
                      | None \<Rightarrow> (None, None, Some ref))"
    unfolding r using assms(1-4) by (rule resolve_explicit)
  have m: "match_implicit_link ref = None" "match_explicit_link ref = Some (a, b, i)"
    unfolding r using assms(1-3) by (simp_all add: match_implicit_colon match_explicit_colon)
  have either: "?res = (None, None, Some ref)
      \<or> (\<exists>s\<in>set (sides a b (links net)). intf_name s = i \<and>
            ?res = (Some (pid (node s)), Some i, Some ref))"
  proof (cases ?f)
    case None
    then show ?thesis using res by simp
  next
    case (Some s)
    then have "s \<in> set (sides a b (links net))" "intf_name s = i"
      by (auto simp: find_Some_iff)
    then show ?thesis using res Some by auto
  qed
  have absent: "?res = (None, None, Some ref)"
    if h: "\<forall>l\<in>set (links net). corresponding_side a b l \<noteq> None \<longrightarrow>
             intf_name (intf1 l) \<noteq> i \<and> intf_name (intf2 l) \<noteq> i"
  proof -
    have "\<forall>s\<in>set (sides a b (links net)). intf_name s \<noteq> i"
    proof
      fix s assume "s \<in> set (sides a b (links net))"
      then obtain l where l: "l \<in> set (links net)" "corresponding_side a b l = Some s"
        by (auto simp: set_sides)
      then have "s = intf1 l \<or> s = intf2 l"
        by (auto simp: corresponding_side_def split: if_splits)
      then show "intf_name s \<noteq> i" using h l by auto
    qed
    then have "?f = None" by (simp add: find_None_iff)
    then show ?thesis using res by simp
  qed
  have present: "fst (snd ?res) = Some i"
    if h: "\<exists>s\<in>set (sides a b (links net)). intf_name s = i"
  proof (cases ?f)
    case None
    then show ?thesis using h by (auto simp: find_None_iff)
  next
    case (Some s)
    then show ?thesis using res by simp
  qed
  show ?thesis using m either absent present by blast
qed

theorem explicit_reference_resolution_witness:
  "all_word ''h1'' \<and> all_word ''s1'' \<and> all_word ''eth0'' \<and> ''eth0'' \<noteq> [] \<and>
   fst (get_mininet_agnostic_identifiers_from_identifier_string example_net
          (Some ''h1->s1:eth0'')) = (Some 101, Some ''eth0'', Some ''h1->s1:eth0'') \<and>
   fst (get_mininet_agnostic_identifiers_from_identifier_string example_net
          (Some ''h1->s1:eth7'')) = (None, None, Some ''h1->s1:eth7'')"
proof -
  have w7: "all_word ''eth7''" by (simp add: all_word_def is_word_char_def)
  have a: "fst (get_mininet_agnostic_identifiers_from_identifier_string example_net
          (Some ''h1->s1:eth0'')) = (Some 101, Some ''eth0'', Some ''h1->s1:eth0'')"
    using explicit_reference_resolution [of "''h1''" "''s1''" "''eth0''" "''h1->s1:eth0''" example_net]
    by (auto simp: sides_example)
  have b: "fst (get_mininet_agnostic_identifiers_from_identifier_string example_net
          (Some ''h1->s1:eth7'')) = (None, None, Some ''h1->s1:eth7'')"
    using explicit_reference_resolution [of "''h1''" "''s1''" "''eth7''" "''h1->s1:eth7''" example_net] w7
    by (auto simp: sides_example)
  show ?thesis using a b by simp
qed

text \<open>
  C1 as stated fails for the empty interface name: \<^verbatim>\<open>h1->s1:\<close> is in the explicit
  syntax with \<open>i\<close> empty, and the resolver returns the interface \<^verbatim>\<open>eth1\<close>.
\<close>

theorem explicit_empty_name_counterexample:
  "match_explicit_link ''h1->s1:'' = Some (''h1'', ''s1'', []) \<and>
   fst (get_mininet_agnostic_identifiers_from_identifier_string example_net (Some ''h1->s1:''))
     = (Some 101, Some ''eth1'', Some ''h1->s1:'') \<and> ''eth1'' \<noteq> []"
proof -
  have p: "parse_identifier ''h1->s1:'' = (''h1'', Some ''s1'', Some [])"
    using match_implicit_colon [of "''h1''" "''s1''" "[]"] match_explicit_colon [of "''h1''" "''s1''" "[]"]
    by (simp add: parse_identifier_def)
  have m: "match_explicit_link ''h1->s1:'' = Some (''h1'', ''s1'', [])"
    using match_explicit_colon [of "''h1''" "''s1''" "[]"] by simp
  show ?thesis
    by (simp add: m resolve_link [OF p] scan_links_implicit sides_example)
qed

text \<open>
  C2, as amended. For an implicit reference \<^verbatim>\<open>a->b\<close> and a topology in which more than
  one link joins \<open>a\<close> and \<open>b\<close>, the resolver returns the interface and the host of the
  last such link in the order of \<^verbatim>\<open>net.links\<close>: the loop has no \<^verbatim>\<open>break\<close> on this
  path, and every later link overwrites the candidate.
\<close>

theorem implicit_reference_takes_last_link:
  assumes "all_word a" and "all_word b" and "1 < length (sides a b (links net))"
    and "ref = a @ ''->'' @ b"
  shows "match_implicit_link ref = Some (a, b) \<and>
     fst (get_mininet_agnostic_identifiers_from_identifier_string net (Some ref)) =
       (Some (pid (node (last (sides a b (links net))))),
        Some (intf_name (last (sides a b (links net)))), Some ref)"
proof -
  have r: "ref = a @ CHR ''-'' # CHR ''>'' # b"
    using assms(4) by simp
  have ne: "sides a b (links net) \<noteq> []"
    using assms(3) by auto
  show ?thesis
    unfolding r using assms(1,2) ne by (simp add: resolve_implicit match_implicit_arrow)
qed

theorem implicit_reference_takes_last_link_witness:
  "all_word ''h1'' \<and> all_word ''s1'' \<and> 1 < length (sides ''h1'' ''s1'' (links example_net)) \<and>
   fst (get_mininet_agnostic_identifiers_from_identifier_string example_net (Some ''h1->s1''))
     = (Some 101, Some ''eth1'', Some ''h1->s1'')"
  using implicit_reference_takes_last_link [of "''h1''" "''s1''" example_net "''h1->s1''"]
  by (simp add: sides_example)

text \<open>
  C2 as stated fails: two links join \<^verbatim>\<open>h1\<close> and \<^verbatim>\<open>s1\<close>, the first one gives
  \<^verbatim>\<open>eth0\<close>, and the resolver returns \<^verbatim>\<open>eth1\<close>, the interface of the second one.
\<close>

theorem implicit_first_link_counterexample:
  "match_implicit_link ''h1->s1'' = Some (''h1'', ''s1'') \<and>
   length (sides ''h1'' ''s1'' (links example_net)) = 2 \<and>
   intf_name (hd (sides ''h1'' ''s1'' (links example_net))) = ''eth0'' \<and>
   fst (get_mininet_agnostic_identifiers_from_identifier_string example_net (Some ''h1->s1''))
     = (Some 101, Some ''eth1'', Some ''h1->s1'') \<and> ''eth1'' \<noteq> ''eth0''"
proof -
  have m: "match_implicit_link ''h1->s1'' = Some (''h1'', ''s1'')"
    using match_implicit_arrow [of "''h1''" "''s1''"] by simp
  have "fst (get_mininet_agnostic_identifiers_from_identifier_string example_net (Some ''h1->s1''))
     = (Some 101, Some ''eth1'', Some ''h1->s1'')"
    using resolve_implicit [of "''h1''" "''s1''" example_net] by (simp add: sides_example)
  then show ?thesis using m by (simp add: sides_example)
qed

text \<open>
  C3. A reference \<open>h\<close> that matches neither link pattern is a bare node name. If a
  host is named \<open>h\<close>, the resolver returns the process id of the first such host, no
  interface name, and \<open>h\<close>; if no host is named \<open>h\<close>, it returns the absent identifier
  with \<open>h\<close>. The resolver is a total function: no path of it raises.
\<close>

theorem bare_name_resolution:
  assumes "match_implicit_link h = None" and "match_explicit_link h = None"
  shows "(\<forall>n. find (\<lambda>n. name n = h) (hosts net) = Some n \<longrightarrow>
            fst (get_mininet_agnostic_identifiers_from_identifier_string net (Some h))
              = (Some (pid n), None, Some h)) \<and>
         ((\<exists>n\<in>set (hosts net). name n = h) \<longrightarrow>
            (\<exists>n\<in>set (hosts net). name n = h \<and>
               fst (get_mininet_agnostic_identifiers_from_identifier_string net (Some h))
                 = (Some (pid n), None, Some h))) \<and>
         ((\<forall>n\<in>set (hosts net). name n \<noteq> h) \<longrightarrow>
            fst (get_mininet_agnostic_identifiers_from_identifier_string net (Some h))
              = (None, None, Some h))"
proof -
  let ?res = "fst (get_mininet_agnostic_identifiers_from_identifier_string net (Some h))"
  let ?f = "find (\<lambda>n. name n = h) (hosts net)"
  have res: "?res = (case ?f of Some n \<Rightarrow> (Some (pid n), None, Some h)
                      | None \<Rightarrow> (None, None, Some h))"
    using assms by (rule resolve_bare)
  have c1: "\<forall>n. ?f = Some n \<longrightarrow> ?res = (Some (pid n), None, Some h)"
    using res by simp
  have c2: "\<exists>n\<in>set (hosts net). name n = h \<and> ?res = (Some (pid n), None, Some h)"
    if "\<exists>n\<in>set (hosts net). name n = h"
  proof (cases ?f)
    case None
    then show ?thesis using that by (auto simp: find_None_iff)
  next
    case (Some n)
    then have "n \<in> set (hosts net)" "name n = h"
      by (auto simp: find_Some_iff)
    then show ?thesis using res Some by auto
  qed
  have c3: "?res = (None, None, Some h)" if "\<forall>n\<in>set (hosts net). name n \<noteq> h"
  proof -
    have "?f = None" using that by (simp add: find_None_iff)
    then show ?thesis using res by simp
  qed
  show ?thesis using c1 c2 c3 by blast
qed

theorem bare_name_resolution_witness:
  "match_implicit_link ''h2'' = None \<and> match_explicit_link ''h2'' = None \<and>
   fst (get_mininet_agnostic_identifiers_from_identifier_string example_net (Some ''h2''))
     = (Some 102, None, Some ''h2'') \<and>
   fst (get_mininet_agnostic_identifiers_from_identifier_string example_net (Some ''s1''))
     = (None, None, Some ''s1'')"
proof -
  have w: "all_word ''h2''" by (simp add: all_word_def is_word_char_def)
  have h2: "match_implicit_link ''h2'' = None" "match_explicit_link ''h2'' = None"
    using w by (simp_all add: match_implicit_link_def match_explicit_link_def)
  have s1: "match_implicit_link ''s1'' = None" "match_explicit_link ''s1'' = None"
    by (simp_all add: match_implicit_link_def match_explicit_link_def)
  show ?thesis
    using bare_name_resolution [OF h2, of example_net] bare_name_resolution [OF s1, of example_net] h2
    by (simp add: example_net_def)
qed

text \<open>
  C9. A reference \<^verbatim>\<open>a->b:\<close> matches the explicit pattern with the empty interface
  name. The empty string is false in Python, so the resolver returns exactly what it
  returns for \<^verbatim>\<open>a->b\<close>, warnings included: when a link joins \<open>a\<close> and \<open>b\<close>, the
  interface of such a link (the last one) instead of a failure.
\<close>

theorem empty_explicit_name_is_implicit:
  assumes "all_word a" and "all_word b"
  shows "match_explicit_link (a @ ''->'' @ b @ '':'') = Some (a, b, []) \<and>
     match_implicit_link (a @ ''->'' @ b @ '':'') = None \<and>
     is_string_in_arrow_pattern (a @ ''->'' @ b @ '':'') \<and>
     get_node_and_interface_name_from_identifier_string net (Some (a @ ''->'' @ b @ '':''))
       = get_node_and_interface_name_from_identifier_string net (Some (a @ ''->'' @ b)) \<and>
     (sides a b (links net) \<noteq> [] \<longrightarrow>
        fst (get_mininet_agnostic_identifiers_from_identifier_string net
               (Some (a @ ''->'' @ b @ '':'')))
          = (Some (pid (node (last (sides a b (links net))))),
             Some (intf_name (last (sides a b (links net)))),
             Some (a @ ''->'' @ b @ '':'')))"
proof -
  have m: "match_explicit_link (a @ CHR ''-'' # CHR ''>'' # b @ [CHR '':'']) = Some (a, b, [])"
          "match_implicit_link (a @ CHR ''-'' # CHR ''>'' # b @ [CHR '':'']) = None"
    using assms match_explicit_colon [of a b "[]"] match_implicit_colon [of a b "[]"]
    by simp_all
  have p: "parse_identifier (a @ CHR ''-'' # CHR ''>'' # b @ [CHR '':'']) = (a, Some b, Some [])"
    using m by (simp add: parse_identifier_def)
  have e: "get_node_and_interface_name_from_identifier_string net
             (Some (a @ CHR ''-'' # CHR ''>'' # b @ [CHR '':'']))
       = get_node_and_interface_name_from_identifier_string net
             (Some (a @ CHR ''-'' # CHR ''>'' # b))"
    using assms by (rule resolve_empty_explicit)
  have l: "fst (get_mininet_agnostic_identifiers_from_identifier_string net
               (Some (a @ CHR ''-'' # CHR ''>'' # b @ [CHR '':''])))
          = (Some (pid (node (last (sides a b (links net))))),
             Some (intf_name (last (sides a b (links net)))),
             Some (a @ CHR ''-'' # CHR ''>'' # b @ [CHR '':'']))"
    if "sides a b (links net) \<noteq> []"
    using that by (simp add: resolve_link [OF p] scan_links_implicit)
  show ?thesis using m e l by (simp add: is_string_in_arrow_pattern_def)
qed

theorem empty_explicit_name_is_implicit_witness:
  "all_word ''h1'' \<and> all_word ''s1'' \<and> sides ''h1'' ''s1'' (links example_net) \<noteq> [] \<and>
   fst (get_mininet_agnostic_identifiers_from_identifier_string example_net (Some ''h1->s1:''))
     = (Some 101, Some ''eth1'', Some ''h1->s1:'')"
  using empty_explicit_name_is_implicit [of "''h1''" "''s1''" example_net]
  by (simp add: sides_example)

section \<open>The controller's activity query\<close>

lemma is_active_returns: "is_active s \<noteq> None"
  by (cases "pipe_faults_to_mininet s") (auto simp: is_active_def poll_def recv_bytes_def Let_def)

lemma run_returns: "run s es \<noteq> None"
proof (induction es arbitrary: s)
  case Nil
  show ?case by simp
next
  case (Cons e es)
  show ?case
  proof (cases e)
    case CallGo
    then show ?thesis using Cons by simp
  next
    case CallIsActive
    obtain r s' where a: "is_active s = Some (r, s')"
      using is_active_returns [of s] by (cases "is_active s") auto
    obtain rs s'' where b: "run s' es = Some (rs, s'')"
      using Cons [of s'] by (cases "run s' es") auto
    show ?thesis using CallIsActive a b by simp
  next
    case (Arrives m)
    then show ?thesis using Cons by simp
  qed
qed

lemma is_active_inactive: "\<not> faults_are_active s \<Longrightarrow> is_active s = Some (False, s)"
  by (simp add: is_active_def)

lemma run_inactive:
  "\<not> faults_are_active s \<Longrightarrow> CallGo \<notin> set es \<Longrightarrow>
   \<exists>rs s'. run s es = Some (rs, s') \<and> list_all (\<lambda>r. r = False) rs"
proof (induction es arbitrary: s)
  case Nil
  show ?case by simp
next
  case (Cons e es)
  show ?case
  proof (cases e)
    case CallGo
    then show ?thesis using Cons.prems by simp
  next
    case CallIsActive
    obtain rs s' where "run s es = Some (rs, s')" "list_all (\<lambda>r. r = False) rs"
      using Cons.IH [of s] Cons.prems by auto
    then show ?thesis using CallIsActive Cons.prems by (simp add: is_active_inactive)
  next
    case (Arrives m)
    have "\<not> faults_are_active (s\<lparr>pipe_faults_to_mininet := send_bytes (pipe_faults_to_mininet s) m\<rparr>)"
      using Cons.prems by simp
    then show ?thesis using Arrives Cons.IH Cons.prems by simp
  qed
qed

lemma is_active_nothing_pending:
  "faults_are_active s \<Longrightarrow> pipe_faults_to_mininet s = [] \<Longrightarrow> is_active s = Some (True, s)"
  by (simp add: is_active_def poll_def)

lemma run_nothing_pending:
  "faults_are_active s \<Longrightarrow> pipe_faults_to_mininet s = [] \<Longrightarrow>
   run s (replicate n CallIsActive) = Some (replicate n True, s)"
  by (induction n) (simp_all add: is_active_nothing_pending)

lemma is_active_done:
  "faults_are_active s \<Longrightarrow> pipe_faults_to_mininet s = MESSAGE_INJECTION_DONE # q \<Longrightarrow>
   is_active s = Some (False, s\<lparr>pipe_faults_to_mininet := q, faults_are_active := False\<rparr>)"
  by (simp add: is_active_def poll_def recv_bytes_def)

lemma is_active_other:
  "faults_are_active s \<Longrightarrow> pipe_faults_to_mininet s = m # q \<Longrightarrow> m \<noteq> MESSAGE_INJECTION_DONE \<Longrightarrow>
   is_active s = Some (True, s\<lparr>pipe_faults_to_mininet := q\<rparr>)"
  by (simp add: is_active_def poll_def recv_bytes_def)

lemma starter_go_fields:
  "faults_are_active (starter_go s)"
  "pipe_faults_to_mininet (starter_go s) = pipe_faults_to_mininet s"
  "pipe_mininet_to_faults (starter_go s) = pipe_mininet_to_faults s @ [MESSAGE_START_INJECTING]"
  by (simp_all add: starter_go_def Let_def send_bytes_def)

lemma starter_init_inactive: "starter_init l p = Some (s, lg) \<Longrightarrow> \<not> faults_are_active s"
  by (auto simp: starter_init_def split: option.splits)

text \<open>
  C5. \<^verbatim>\<open>is_active\<close> always returns (it reads the channel only after \<^verbatim>\<open>poll\<close> has
  reported a pending message), and so does every sequence of calls and arrivals. From
  the state that the constructor leaves, and as long as \<^verbatim>\<open>go\<close> is not called, every call
  returns False. \<^verbatim>\<open>go\<close> sets the flag; with the flag set and no message pending, every
  call returns True and leaves the object as it is. With the done message at the head of
  the channel, the call reads it, clears the flag and returns False, and every later
  call returns False whatever arrives. When \<^verbatim>\<open>poll\<close> reports no pending message the
  object, and with it the channel, is unchanged.
\<close>

theorem is_active_protocol:
  "is_active s \<noteq> None \<and> run s es \<noteq> None \<and>
   (starter_init l p = Some (s0, lg) \<and> CallGo \<notin> set es \<longrightarrow>
      (\<exists>rs s'. run s0 es = Some (rs, s') \<and> list_all (\<lambda>r. r = False) rs)) \<and>
   faults_are_active (starter_go s0) \<and>
   (faults_are_active s1 \<and> pipe_faults_to_mininet s1 = [] \<longrightarrow>
      run s1 (replicate n CallIsActive) = Some (replicate n True, s1)) \<and>
   (faults_are_active s2 \<and> pipe_faults_to_mininet s2 = MESSAGE_INJECTION_DONE # q
      \<and> CallGo \<notin> set es \<longrightarrow>
        is_active s2 = Some (False, s2\<lparr>pipe_faults_to_mininet := q, faults_are_active := False\<rparr>)
        \<and> (\<exists>rs s'. run s2 (CallIsActive # es) = Some (rs, s') \<and> list_all (\<lambda>r. r = False) rs)) \<and>
   (\<not> poll (pipe_faults_to_mininet s) \<longrightarrow> (\<exists>r. is_active s = Some (r, s)))"
proof -
  have b: "\<exists>rs s'. run s0 es = Some (rs, s') \<and> list_all (\<lambda>r. r = False) rs"
    if "starter_init l p = Some (s0, lg)" "CallGo \<notin> set es"
    using that starter_init_inactive [of l p s0 lg] run_inactive [of s0 es] by blast
  have e: "\<exists>rs s'. run s2 (CallIsActive # es) = Some (rs, s') \<and> list_all (\<lambda>r. r = False) rs"
    if h: "faults_are_active s2" "pipe_faults_to_mininet s2 = MESSAGE_INJECTION_DONE # q"
          "CallGo \<notin> set es"
  proof -
    let ?s = "s2\<lparr>pipe_faults_to_mininet := q, faults_are_active := False\<rparr>"
    have "\<not> faults_are_active ?s" by simp
    then obtain rs s' where "run ?s es = Some (rs, s')" "list_all (\<lambda>r. r = False) rs"
      using run_inactive [of ?s es] h(3) by auto
    then show ?thesis using is_active_done [OF h(1,2)] by simp
  qed
  have f: "\<exists>r. is_active s = Some (r, s)" if "\<not> poll (pipe_faults_to_mininet s)"
    using that by (auto simp: is_active_def)
  show ?thesis
    using is_active_returns run_returns b starter_go_fields(1)
      run_nothing_pending is_active_done e f
    by blast
qed

theorem is_active_protocol_witness:
  "starter_init True [MESSAGE_SETUP_DONE] \<noteq> None \<and>
   CallGo \<notin> set [CallIsActive, Arrives ''x'', CallIsActive] \<and>
   map_option fst (run example_starter [CallIsActive, Arrives ''x'', CallIsActive])
     = Some [False, False] \<and>
   faults_are_active (starter_go example_starter) \<and>
   pipe_faults_to_mininet (starter_go example_starter) = [] \<and>
   run (starter_go example_starter) (replicate 2 CallIsActive)
     = Some (replicate 2 True, starter_go example_starter) \<and>
   map_option fst
     (run ((starter_go example_starter)\<lparr>pipe_faults_to_mininet := [MESSAGE_INJECTION_DONE, ''x'']\<rparr>)
        [CallIsActive, CallIsActive, Arrives ''x'', CallIsActive])
     = Some [False, False, False] \<and>
   \<not> poll (pipe_faults_to_mininet (starter_go example_starter)) \<and>
   is_active (starter_go example_starter) = Some (True, starter_go example_starter)"
proof -
  have i: "starter_init True [MESSAGE_SETUP_DONE] = Some (example_starter,
       [LogDebug (''Fault process started'' @ [CHR 0x0A]),
        LogDebug (''Received message from FI'' @ [CHR 0x0A]),
        LogDebug (''FaultController has signalled that it's ready'' @ [CHR 0x0A])])"
    by (simp add: starter_init_def recv_bytes_def example_starter_def)
  have g: "faults_are_active (starter_go example_starter)"
          "pipe_faults_to_mininet (starter_go example_starter) = []"
    by (simp_all add: starter_go_fields example_starter_def)
  let ?s2 = "(starter_go example_starter)\<lparr>pipe_faults_to_mininet := [MESSAGE_INJECTION_DONE, ''x'']\<rparr>"
  have g2: "faults_are_active ?s2" "pipe_faults_to_mininet ?s2 = MESSAGE_INJECTION_DONE # [''x'']"
    using g by simp_all
  note t = is_active_protocol [of "starter_go example_starter" "[CallIsActive, Arrives ''x'', CallIsActive]"
      True "[MESSAGE_SETUP_DONE]" example_starter _ "starter_go example_starter" 2 ?s2 "[''x'']"]
  have r1: "map_option fst (run example_starter [CallIsActive, Arrives ''x'', CallIsActive])
     = Some [False, False]"
    by (simp add: is_active_def example_starter_def)
  have r2: "map_option fst (run ?s2 [CallIsActive, CallIsActive, Arrives ''x'', CallIsActive])
     = Some [False, False, False]"
    using g by (simp add: is_active_def poll_def recv_bytes_def)
  have r3: "is_active (starter_go example_starter) = Some (True, starter_go example_starter)"
    using g by (rule is_active_nothing_pending)
  have r4: "run (starter_go example_starter) (replicate 2 CallIsActive)
     = Some (replicate 2 True, starter_go example_starter)"
    using g by (rule run_nothing_pending)
  have r5: "\<not> poll (pipe_faults_to_mininet (starter_go example_starter))"
    using g by (simp add: poll_def)
  have r6: "CallGo \<notin> set [CallIsActive, Arrives ''x'', CallIsActive]"
    by simp
  show ?thesis
    using t i g r1 r2 r3 r4 r5 r6 by blast
qed

text \<open>
  C10. With the flag set (as \<^verbatim>\<open>go\<close> leaves it) and a pending message other than the
  done message at the head of the channel, \<^verbatim>\<open>is_active\<close> returns True, the message is
  no longer in the channel, which now holds the messages behind it, and the flag is
  still set.
\<close>

theorem unexpected_message_is_consumed:
  assumes "faults_are_active s" and "pipe_faults_to_mininet s = m # q"
    and "m \<noteq> MESSAGE_INJECTION_DONE"
  shows "is_active s = Some (True, s\<lparr>pipe_faults_to_mininet := q\<rparr>) \<and>
         faults_are_active (s\<lparr>pipe_faults_to_mininet := q\<rparr>) \<and>
         pipe_faults_to_mininet (s\<lparr>pipe_faults_to_mininet := q\<rparr>) = q \<and>
         (pipe_faults_to_mininet s0 = m # q \<longrightarrow>
            is_active (starter_go s0) = Some (True, (starter_go s0)\<lparr>pipe_faults_to_mininet := q\<rparr>))"
  using assms is_active_other [of s m q] is_active_other [of "starter_go s0" m q]
  by (simp add: starter_go_fields)

theorem unexpected_message_is_consumed_witness:
  "faults_are_active (starter_go (example_starter\<lparr>pipe_faults_to_mininet := [''x'', ''y'']\<rparr>)) \<and>
   pipe_faults_to_mininet (starter_go (example_starter\<lparr>pipe_faults_to_mininet := [''x'', ''y'']\<rparr>))
     = ''x'' # [''y''] \<and>
   ''x'' \<noteq> MESSAGE_INJECTION_DONE \<and>
   is_active (starter_go (example_starter\<lparr>pipe_faults_to_mininet := [''x'', ''y'']\<rparr>)) =
     Some (True, (starter_go (example_starter\<lparr>pipe_faults_to_mininet := [''x'', ''y'']\<rparr>))
                   \<lparr>pipe_faults_to_mininet := [''y'']\<rparr>)"
  using unexpected_message_is_consumed
    [of "starter_go (example_starter\<lparr>pipe_faults_to_mininet := [''x'', ''y'']\<rparr>)" "''x''" "[''y'']"
        "example_starter\<lparr>pipe_faults_to_mininet := [''x'', ''y'']\<rparr>"]
  by (simp add: starter_go_fields MESSAGE_INJECTION_DONE_def)

section \<open>The injector's run sequence: claims\<close>

lemma filter_all_upt:
  "list_all P xs \<Longrightarrow> filter (\<lambda>i. P (xs ! i)) [0..<length xs] = [0..<length xs]"
  by (simp add: list_all_length)

lemma takeWhile_not_done:
  "SendBytes d \<notin> set pre \<Longrightarrow>
   takeWhile (\<lambda>a. a \<noteq> SendBytes d) (pre @ SendBytes d # post) = pre"
  by (induction pre) auto

lemma before_done_no_send: "SendBytes d \<notin> set (trace_before_done completes self)"
  unfolding trace_before_done_def by auto

lemma before_done_no_teardown:
  "\<forall>a\<in>set (trace_before_done completes self). \<not> is_logger_teardown a"
  unfolding trace_before_done_def by (auto simp: is_logger_teardown_def)

lemma before_done_no_logger:
  "fault_logger self = None \<Longrightarrow>
   \<forall>a\<in>set (trace_before_done completes self). a \<noteq> CreateLogTask \<and> a \<noteq> CallListenForLogWrite"
  unfolding trace_before_done_def by auto

lemma before_done_completed:
  assumes "list_all completes (faults self)"
  shows "\<forall>i<length (faults self). FaultCompleted i \<in> set (trace_before_done completes self)"
  unfolding trace_before_done_def filter_all_upt [OF assms] by simp

lemma controller_go_all_complete:
  "list_all completes (faults self) \<Longrightarrow>
   controller_go completes self =
     (trace_before_done completes self @ SendBytes MESSAGE_INJECTION_DONE #
        (if fault_logger self \<noteq> None
         then [FaultLoggerStop, AwaitLogTask, AwaitLogTaskActivator] else []),
      self\<lparr>send_pipe_faults_to_mininet :=
              send_pipe_faults_to_mininet self @ [MESSAGE_INJECTION_DONE]\<rparr>)"
  unfolding controller_go_def trace_before_done_def Let_def send_bytes_def by simp

lemma controller_go_not_complete:
  "\<not> list_all completes (faults self) \<Longrightarrow>
   controller_go completes self = (trace_before_done completes self, self)"
  unfolding controller_go_def trace_before_done_def Let_def by simp

text \<open>
  C4. The done message is sent if and only if every fault unit completes. When it is
  sent, the completion of every unit precedes it, no action of the logger's teardown
  precedes it, and what follows it is exactly the teardown (stop the logger, await its
  task, await the listener) if a logger exists and nothing otherwise. Without a logger
  the run contains no logger action at all.
\<close>

theorem done_after_join_before_teardown:
  "(SendBytes MESSAGE_INJECTION_DONE \<in> set (fst (controller_go completes self))
      \<longleftrightarrow> list_all completes (faults self)) \<and>
   (list_all completes (faults self) \<longrightarrow>
      fst (controller_go completes self) =
        takeWhile (\<lambda>a. a \<noteq> SendBytes MESSAGE_INJECTION_DONE) (fst (controller_go completes self))
        @ [SendBytes MESSAGE_INJECTION_DONE]
        @ (if fault_logger self \<noteq> None
           then [FaultLoggerStop, AwaitLogTask, AwaitLogTaskActivator] else []) \<and>
      (\<forall>i<length (faults self). FaultCompleted i \<in>
         set (takeWhile (\<lambda>a. a \<noteq> SendBytes MESSAGE_INJECTION_DONE)
                (fst (controller_go completes self)))) \<and>
      (\<forall>a\<in>set (takeWhile (\<lambda>a. a \<noteq> SendBytes MESSAGE_INJECTION_DONE)
                (fst (controller_go completes self))). \<not> is_logger_teardown a) \<and>
      send_pipe_faults_to_mininet (snd (controller_go completes self))
        = send_pipe_faults_to_mininet self @ [MESSAGE_INJECTION_DONE]) \<and>
   (\<not> list_all completes (faults self) \<longrightarrow>
      snd (controller_go completes self) = self \<and>
      (\<forall>a\<in>set (fst (controller_go completes self)). \<not> is_logger_teardown a)) \<and>
   (fault_logger self = None \<longrightarrow>
      (\<forall>a\<in>set (fst (controller_go completes self)).
         \<not> is_logger_teardown a \<and> a \<noteq> CreateLogTask \<and> a \<noteq> CallListenForLogWrite))"
proof -
  let ?pre = "trace_before_done completes self"
  let ?post = "if fault_logger self \<noteq> None
           then [FaultLoggerStop, AwaitLogTask, AwaitLogTaskActivator] else []"
  let ?d = "SendBytes MESSAGE_INJECTION_DONE"
  let ?t = "fst (controller_go completes self)"
  have nd: "?d \<notin> set ?pre" by (rule before_done_no_send)
  have c1: "?d \<in> set ?t \<longleftrightarrow> list_all completes (faults self)"
  proof (cases "list_all completes (faults self)")
    case True
    then show ?thesis by (simp add: controller_go_all_complete)
  next
    case False
    then show ?thesis using nd by (simp add: controller_go_not_complete)
  qed
  have tw: "takeWhile (\<lambda>a. a \<noteq> ?d) ?t = ?pre" if "list_all completes (faults self)"
    using takeWhile_not_done [OF nd] that by (simp add: controller_go_all_complete)
  have c2: "?t = takeWhile (\<lambda>a. a \<noteq> ?d) ?t @ [?d] @ ?post" if h: "list_all completes (faults self)"
    unfolding tw [OF h] using h by (simp add: controller_go_all_complete)
  have c3: "\<forall>i<length (faults self). FaultCompleted i \<in> set (takeWhile (\<lambda>a. a \<noteq> ?d) ?t)"
    if h: "list_all completes (faults self)"
    unfolding tw [OF h] using h by (rule before_done_completed)
  have c4: "\<forall>a\<in>set (takeWhile (\<lambda>a. a \<noteq> ?d) ?t). \<not> is_logger_teardown a"
    if h: "list_all completes (faults self)"
    unfolding tw [OF h] by (rule before_done_no_teardown)
  have c5: "send_pipe_faults_to_mininet (snd (controller_go completes self))
        = send_pipe_faults_to_mininet self @ [MESSAGE_INJECTION_DONE]"
    if h: "list_all completes (faults self)"
    using h by (simp add: controller_go_all_complete)
  have c6: "snd (controller_go completes self) = self" if "\<not> list_all completes (faults self)"
    using that by (simp add: controller_go_not_complete)
  have c7: "\<forall>a\<in>set ?t. \<not> is_logger_teardown a" if "\<not> list_all completes (faults self)"
    using that before_done_no_teardown [of completes self] by (simp add: controller_go_not_complete)
  have c8: "\<forall>a\<in>set ?t. \<not> is_logger_teardown a \<and> a \<noteq> CreateLogTask \<and> a \<noteq> CallListenForLogWrite"
    if h: "fault_logger self = None"
  proof (cases "list_all completes (faults self)")
    case True
    have "?t = ?pre @ [?d]"
      using True h by (simp add: controller_go_all_complete)
    then show ?thesis
      using before_done_no_teardown [of completes self] before_done_no_logger [OF h, of completes]
      by (simp add: is_logger_teardown_def)
  next
    case False
    then show ?thesis
      using before_done_no_teardown [of completes self] before_done_no_logger [OF h, of completes]
      by (simp add: controller_go_not_complete)
  qed
  show ?thesis
    apply (intro conjI impI)
           apply (rule c1)
          apply (erule c2)
         apply (erule c3)
        apply (erule c4)
       apply (erule c5)
      apply (erule c6)
     apply (erule c7)
    apply (erule c8)
    done
qed

theorem done_after_join_before_teardown_witness:
  "list_all (\<lambda>b. b) (faults example_controller) \<and>
   fault_logger example_controller \<noteq> None \<and>
   fst (controller_go (\<lambda>b. b) example_controller) =
     takeWhile (\<lambda>a. a \<noteq> SendBytes MESSAGE_INJECTION_DONE)
       (fst (controller_go (\<lambda>b. b) example_controller))
     @ [SendBytes MESSAGE_INJECTION_DONE, FaultLoggerStop, AwaitLogTask, AwaitLogTaskActivator] \<and>
   FaultCompleted 1 \<in> set (takeWhile (\<lambda>a. a \<noteq> SendBytes MESSAGE_INJECTION_DONE)
       (fst (controller_go (\<lambda>b. b) example_controller))) \<and>
   \<not> list_all (\<lambda>b. b) (faults (example_controller\<lparr>faults := [True, False]\<rparr>)) \<and>
   SendBytes MESSAGE_INJECTION_DONE \<notin>
     set (fst (controller_go (\<lambda>b. b) (example_controller\<lparr>faults := [True, False]\<rparr>))) \<and>
   fault_logger (example_controller\<lparr>fault_logger := None\<rparr>) = None \<and>
   FaultLoggerStop \<notin>
     set (fst (controller_go (\<lambda>b. b) (example_controller\<lparr>fault_logger := None\<rparr>)))"
proof -
  have a: "list_all (\<lambda>b. b) (faults example_controller)"
          "fault_logger example_controller \<noteq> None"
          "length (faults example_controller) = 2"
    by (simp_all add: example_controller_def)
  have b: "\<not> list_all (\<lambda>b. b) (faults (example_controller\<lparr>faults := [True, False]\<rparr>))"
    by simp
  have c: "fault_logger (example_controller\<lparr>fault_logger := None\<rparr>) = None"
    by simp
  note t1 = done_after_join_before_teardown [of "\<lambda>b. b" example_controller]
  note t2 = done_after_join_before_teardown [of "\<lambda>b. b" "example_controller\<lparr>faults := [True, False]\<rparr>"]
  note t3 = done_after_join_before_teardown [of "\<lambda>b. b" "example_controller\<lparr>fault_logger := None\<rparr>"]
  have d: "FaultCompleted 1 \<in> set (takeWhile (\<lambda>a. a \<noteq> SendBytes MESSAGE_INJECTION_DONE)
       (fst (controller_go (\<lambda>b. b) example_controller)))"
    using t1 a by simp
  have e: "fst (controller_go (\<lambda>b. b) example_controller) =
     takeWhile (\<lambda>a. a \<noteq> SendBytes MESSAGE_INJECTION_DONE)
       (fst (controller_go (\<lambda>b. b) example_controller))
     @ [SendBytes MESSAGE_INJECTION_DONE, FaultLoggerStop, AwaitLogTask, AwaitLogTaskActivator]"
    using t1 a by simp
  have f: "SendBytes MESSAGE_INJECTION_DONE \<notin>
     set (fst (controller_go (\<lambda>b. b) (example_controller\<lparr>faults := [True, False]\<rparr>)))"
    using t2 b by blast
  have g: "FaultLoggerStop \<notin>
     set (fst (controller_go (\<lambda>b. b) (example_controller\<lparr>fault_logger := None\<rparr>)))"
    using t3 c by (auto simp: is_logger_teardown_def)
  show ?thesis using a b c d e f g by blast
qed

section \<open>The transfer encoding: lemmas\<close>

lemma of_char_less_256: "(of_char (c::char) :: nat) < 256"
  by (metis of_char_mod_256 mod_less_divisor zero_less_numeral)

lemma char_of_eq: "(char_of (m::nat) = c) = (m mod 256 = of_char c)"
  by (simp add: char_of_eq_iff take_bit_eq_mod)

lemma hex_val_hex_char: "d < 16 \<Longrightarrow> hex_val (hex_char d) = Some d"
  by (auto simp: hex_val_def hex_char_def Let_def)

lemma char_of_hex_parts: "char_of (16 * ((of_char c :: nat) div 16) + (of_char c :: nat) mod 16) = c"
  by simp

lemma string_body_repr_char:
  assumes q: "q = CHR 0x27 \<or> q = CHR 0x22"
    and r: "string_body q rest = Some (s, r)"
  shows "string_body q (repr_char q c @ rest) = Some (c # s, r)"
proof -
  let ?n = "of_char c :: nat"
  have d: "?n div 16 < 16" "?n mod 16 < 16"
    using of_char_less_256 [of c] by arith+
  have bs: "CHR 0x5C \<noteq> q" "CHR 0x5C \<noteq> CHR 0x0A" using q by auto
  have hexcase: "string_body q ([CHR 0x5C, CHR ''x'', hex_char (?n div 16), hex_char (?n mod 16)] @ rest)
      = Some (c # s, r)"
    using bs r by (simp add: hex_val_hex_char [OF d(1)] hex_val_hex_char [OF d(2)])
  show ?thesis
  proof (cases "c = q \<or> c = CHR 0x5C")
    case True
    then show ?thesis using q r bs by (auto simp: repr_char_def simple_escape_def)
  next
    case n1: False
    show ?thesis
    proof (cases "c = CHR 0x09 \<or> c = CHR 0x0A \<or> c = CHR 0x0D")
      case True
      then show ?thesis using q r bs n1 by (auto simp: repr_char_def simple_escape_def)
    next
      case n2: False
      show ?thesis
      proof (cases "?n < 32 \<or> ?n = 127 \<or> (127 \<le> ?n \<and> \<not> is_printable c)")
        case True
        then have "repr_char q c = [CHR 0x5C, CHR ''x'', hex_char (?n div 16), hex_char (?n mod 16)]"
          using n1 n2 by (auto simp: repr_char_def Let_def)
        then show ?thesis using hexcase by simp
      next
        case False
        then have p: "repr_char q c = [c]" and g: "32 \<le> ?n"
          using n1 n2 by (auto simp: repr_char_def Let_def)
        have "c \<noteq> CHR 0x00" using g by auto
        then show ?thesis using p n1 n2 r by simp
      qed
    qed
  qed
qed

lemma string_body_repr:
  assumes "q = CHR 0x27 \<or> q = CHR 0x22"
  shows "string_body q (concat (map (repr_char q) s) @ q # r) = Some (s, r)"
proof (induction s)
  case Nil
  show ?case by simp
next
  case (Cons c s)
  show ?case using string_body_repr_char [OF assms Cons] by simp
qed

lemma repr_nat_nonempty: "repr_nat n \<noteq> []"
  by (subst repr_nat.simps) simp

lemma is_digit_digit_char: "d < 10 \<Longrightarrow> is_digit (digit_char d)"
  by (simp add: is_digit_def digit_char_def)

lemma of_char_digit_char: "d < 10 \<Longrightarrow> (of_char (digit_char d) :: nat) - 48 = d"
  by (simp add: digit_char_def)

lemma repr_nat_digits: "list_all is_digit (repr_nat n)"
proof (induction n rule: repr_nat.induct)
  case (1 n)
  show ?case
  proof (cases "n < 10")
    case True
    then show ?thesis by (subst repr_nat.simps) (simp add: is_digit_digit_char)
  next
    case False
    then show ?thesis using 1 by (subst repr_nat.simps) (simp add: is_digit_digit_char)
  qed
qed

lemma digits_val_append: "digits_val acc (xs @ ys) = digits_val (digits_val acc xs) ys"
  by (induction xs arbitrary: acc) simp_all

lemma digits_val_repr_nat: "digits_val 0 (repr_nat n) = n"
proof (induction n rule: repr_nat.induct)
  case (1 n)
  show ?case
  proof (cases "n < 10")
    case True
    then show ?thesis by (subst repr_nat.simps) (simp add: of_char_digit_char)
  next
    case False
    then have "digits_val 0 (repr_nat (n div 10)) = n div 10" using 1 by simp
    then show ?thesis using False
      by (subst repr_nat.simps) (simp add: digits_val_append of_char_digit_char)
  qed
qed

lemma hd_repr_nat: "0 < n \<Longrightarrow> hd (repr_nat n) \<noteq> CHR ''0''"
proof (induction n rule: repr_nat.induct)
  case (1 n)
  show ?case
  proof (cases "n < 10")
    case True
    then show ?thesis using "1.prems"
      by (subst repr_nat.simps) (auto simp: digit_char_def char_of_eq)
  next
    case False
    then have "hd (repr_nat (n div 10)) \<noteq> CHR ''0''" using 1 by simp
    then show ?thesis using False
      by (subst repr_nat.simps) (simp add: repr_nat_nonempty)
  qed
qed

lemma repr_nat_0: "repr_nat 0 = ''0''"
  by (subst repr_nat.simps) (simp add: digit_char_def char_of_eq)

lemma is_digit_word: "is_digit c \<Longrightarrow> is_word_char c"
  by (simp add: is_digit_def is_word_char_def Let_def)

lemma takeWhile_digits:
  "list_all is_digit ds \<Longrightarrow> stops r \<Longrightarrow> takeWhile is_digit (ds @ r) = ds"
  by (induction ds) (auto simp: stops_def dest: is_digit_word split: list.splits)

lemma dropWhile_digits:
  "list_all is_digit ds \<Longrightarrow> stops r \<Longrightarrow> dropWhile is_digit (ds @ r) = r"
  by (induction ds) (auto simp: stops_def dest: is_digit_word split: list.splits)

lemma parse_int_repr_nat:
  assumes "stops r"
  shows "parse_int (repr_nat n @ r) = Some (n, r)"
proof -
  have t: "takeWhile is_digit (repr_nat n @ r) = repr_nat n"
    and d: "dropWhile is_digit (repr_nat n @ r) = r"
    using assms by (simp_all add: takeWhile_digits dropWhile_digits repr_nat_digits)
  have z: "\<not> (hd (repr_nat n) = CHR ''0'' \<and> \<not> list_all (\<lambda>c. c = CHR ''0'') (repr_nat n))"
  proof (cases "n = 0")
    case True
    then show ?thesis by (simp add: repr_nat_0)
  next
    case False
    then show ?thesis using hd_repr_nat [of n] by simp
  qed
  have s: "\<not> (case r of [] \<Rightarrow> False | c # _ \<Rightarrow> is_word_char c \<or> c = CHR ''.'')"
    using assms by (auto simp: stops_def split: list.splits)
  show ?thesis
    unfolding parse_int_def Let_def t d using z s
    by (simp add: repr_nat_nonempty digits_val_repr_nat)
qed

lemma stops_delim: "d = CHR '','' \<or> d = CHR '')'' \<Longrightarrow> stops (d # r)"
  by (auto simp: stops_def is_word_char_def)

lemma repr_nat_head: "\<exists>c cs. repr_nat n = c # cs \<and> is_digit c"
  using repr_nat_nonempty [of n] repr_nat_digits [of n] by (cases "repr_nat n") auto

lemma is_digit_not_special:
  "is_digit c \<Longrightarrow> c \<noteq> CHR 0x27 \<and> c \<noteq> CHR 0x22 \<and> c \<noteq> CHR ''-'' \<and> c \<noteq> CHR '' ''
     \<and> c \<noteq> CHR '')'' \<and> c \<noteq> CHR ''('' \<and> c \<noteq> CHR 0x09"
  by (auto simp: is_digit_def)

lemma parse_atom_none:
  assumes "d = CHR '','' \<or> d = CHR '')''"
  shows "parse_atom (''None'' @ d # r) = Some (PyNone, d # r)"
  using assms by (auto simp: parse_atom_def is_digit_def is_word_char_def)

lemma parse_atom_int:
  assumes "d = CHR '','' \<or> d = CHR '')''"
  shows "parse_atom (repr_int i @ d # r) = Some (PyInt i, d # r)"
proof (cases "i < 0")
  case True
  then show ?thesis
    by (simp add: repr_int_def parse_atom_def parse_int_repr_nat [OF stops_delim [OF assms]])
next
  case False
  obtain c cs where h: "repr_nat (nat i) = c # cs" "is_digit c"
    using repr_nat_head [of "nat i"] by auto
  have "parse_int (repr_nat (nat i) @ d # r) = Some (nat i, d # r)"
    by (rule parse_int_repr_nat [OF stops_delim [OF assms]])
  then have "parse_int (c # cs @ d # r) = Some (nat i, d # r)" using h(1) by simp
  then show ?thesis using False h is_digit_not_special [OF h(2)]
    by (simp add: repr_int_def parse_atom_def)
qed

lemma repr_char_head: "\<exists>c cs. repr_char q x = c # cs \<and> (c = CHR 0x5C \<or> (c = x \<and> x \<noteq> q))"
  by (auto simp: repr_char_def Let_def)

lemma body_not_triple:
  assumes "q = CHR 0x27 \<or> q = CHR 0x22" and "d \<noteq> q"
  shows "take 2 (concat (map (repr_char q) s) @ q # d # r) \<noteq> [q, q]"
proof (cases s)
  case Nil
  then show ?thesis using assms by simp
next
  case (Cons x xs)
  obtain c cs where "repr_char q x = c # cs" "c = CHR 0x5C \<or> (c = x \<and> x \<noteq> q)"
    using repr_char_head [of q x] by auto
  then show ?thesis using Cons assms by auto
qed

lemma parse_atom_str:
  assumes "d = CHR '','' \<or> d = CHR '')''"
  shows "parse_atom (repr_str s @ d # r) = Some (PyStr s, d # r)"
proof -
  define q where "q = (if CHR 0x27 \<in> set s \<and> CHR 0x22 \<notin> set s then CHR 0x22 else CHR 0x27)"
  have q: "q = CHR 0x27 \<or> q = CHR 0x22" by (simp add: q_def)
  have dq: "d \<noteq> q" using assms q by auto
  have r: "repr_str s @ d # r = q # (concat (map (repr_char q) s) @ q # d # r)"
    by (simp add: repr_str_def q_def Let_def)
  show ?thesis
    unfolding r using q body_not_triple [OF q dq, of s r] string_body_repr [OF q, of s "d # r"]
    by (auto simp: parse_atom_def)
qed

lemma parse_atom_repr:
  assumes "scalar v" and "d = CHR '','' \<or> d = CHR '')''"
  shows "parse_atom (repr v @ d # r) = Some (v, d # r)"
proof (cases v)
  case PyNone
  then show ?thesis using parse_atom_none [OF assms(2), of r] by simp
next
  case (PyInt i)
  then show ?thesis using parse_atom_int [OF assms(2)] by simp
next
  case (PyStr s)
  then show ?thesis using parse_atom_str [OF assms(2)] by simp
next
  case (PyTuple vs)
  then show ?thesis using assms(1) by (simp add: scalar_def)
qed

lemma repr_head:
  assumes "scalar v"
  shows "\<exists>c cs. repr v = c # cs \<and> c \<noteq> CHR '' '' \<and> c \<noteq> CHR '')'' \<and> c \<noteq> CHR ''('' \<and> c \<noteq> CHR 0x09"
proof (cases v)
  case PyNone
  then show ?thesis by simp
next
  case (PyInt i)
  obtain c cs where h: "repr_nat (nat (- i)) = c # cs" "is_digit c"
    using repr_nat_head [of "nat (- i)"] by auto
  obtain c' cs' where h': "repr_nat (nat i) = c' # cs'" "is_digit c'"
    using repr_nat_head [of "nat i"] by auto
  show ?thesis using PyInt h' is_digit_not_special [OF h'(2)] by (auto simp: repr_int_def)
next
  case (PyStr s)
  then show ?thesis by (auto simp: repr_str_def Let_def)
next
  case (PyTuple vs)
  then show ?thesis using assms by (simp add: scalar_def)
qed

lemma parse_elements_close: "parse_elements (CHR '')'' # rest) = Some ([], rest)"
  by (subst parse_elements.simps) simp

lemma parse_elements_last:
  assumes "scalar v"
  shows "parse_elements (CHR '' '' # repr v @ CHR '')'' # rest) = Some ([v], rest)"
proof -
  obtain c cs where h: "repr v = c # cs" "c \<noteq> CHR '' ''" "c \<noteq> CHR '')''"
    using repr_head [OF assms] by auto
  have p: "parse_atom (c # cs @ CHR '')'' # rest) = Some (v, CHR '')'' # rest)"
    using parse_atom_repr [OF assms, of "CHR '')''" rest] h(1) by simp
  show ?thesis
    by (subst parse_elements.simps) (simp add: h p)
qed

lemma parse_elements_more:
  assumes "scalar v"
  shows "parse_elements (CHR '' '' # repr v @ CHR '','' # r1) =
           map_option (\<lambda>(vs, rest). (v # vs, rest)) (parse_elements r1)"
proof -
  obtain c cs where h: "repr v = c # cs" "c \<noteq> CHR '' ''" "c \<noteq> CHR '')''"
    using repr_head [OF assms] by auto
  have p: "parse_atom (c # cs @ CHR '','' # r1) = Some (v, CHR '','' # r1)"
    using parse_atom_repr [OF assms, of "CHR '',''" r1] h(1) by simp
  show ?thesis
    by (subst parse_elements.simps) (simp add: h p)
qed

lemma parse_elements_join:
  "list_all scalar vs \<Longrightarrow> vs \<noteq> [] \<Longrightarrow>
   parse_elements (CHR '' '' # join '', '' (map repr vs) @ CHR '')'' # rest) = Some (vs, rest)"
proof (induction vs)
  case Nil
  then show ?case by simp
next
  case (Cons v vs)
  show ?case
  proof (cases vs)
    case Nil
    then show ?thesis using Cons.prems parse_elements_last [of v rest] by simp
  next
    case (Cons w ws)
    have "parse_elements (CHR '' '' # join '', '' (map repr vs) @ CHR '')'' # rest) = Some (vs, rest)"
      using Cons.IH Cons.prems Cons by simp
    then show ?thesis
      using Cons Cons.prems
        parse_elements_more [of v "CHR '' '' # join '', '' (map repr vs) @ CHR '')'' # rest"]
      by simp
  qed
qed

lemma literal_eval_repr_tuple:
  assumes "list_all scalar vs"
  shows "literal_eval (repr (PyTuple vs)) = Some (PyTuple vs)"
proof (cases vs)
  case Nil
  then show ?thesis by (simp add: literal_eval_def)
next
  case (Cons v ws)
  have sv: "scalar v" using assms Cons by simp
  obtain c cs where h: "repr v = c # cs" "c \<noteq> CHR '')''"
    using repr_head [OF sv] by auto
  show ?thesis
  proof (cases ws)
    case Nil
    have p: "parse_atom (c # cs @ '',)'') = Some (v, '',)'')"
      using parse_atom_repr [OF sv, of "CHR '',''" "'')''"] h(1) by simp
    show ?thesis using Cons Nil h p
      by (simp add: literal_eval_def parse_elements_close)
  next
    case (Cons w ws')
    let ?tail = "CHR '' '' # join '', '' (map repr ws) @ '')''"
    have p: "parse_atom (c # cs @ CHR '','' # ?tail) = Some (v, CHR '','' # ?tail)"
      using parse_atom_repr [OF sv, of "CHR '',''" ?tail] h(1) by simp
    have e: "parse_elements ?tail = Some (ws, [])"
      using parse_elements_join [of ws "[]"] assms \<open>vs = v # ws\<close> Cons by simp
    show ?thesis using \<open>vs = v # ws\<close> Cons h p e
      by (simp add: literal_eval_def)
  qed
qed

lemma scalar_options [simp]: "scalar (py_int_option p)" "scalar (py_str_option i)"
  by (cases p; simp add: scalar_def) (cases i; simp add: scalar_def)

lemma literal_eval_identifying_tuple:
  "literal_eval (repr (identifying_tuple t)) = Some (identifying_tuple t)"
  by (cases t) (simp add: identifying_tuple_def literal_eval_repr_tuple del: repr.simps)

text \<open>
  C6. For every identifier triple (an optional integer, an optional string, and the
  reference, which is a string or, for a log command without a host, absent), reading
  the \<^verbatim>\<open>repr\<close> of the tuple with \<^verbatim>\<open>literal_eval\<close> gives the tuple back. Integers
  are the mathematical integers and strings are over the code points 0 to 255.
\<close>

theorem identifier_transfer_roundtrip:
  "literal_eval (repr (identifying_tuple (process_group_id, interface_name, identifier_string)))
     = Some (identifying_tuple (process_group_id, interface_name, identifier_string)) \<and>
   literal_eval_value (YStr (repr (identifying_tuple
       (process_group_id, interface_name, identifier_string))))
     = Inr (PyTuple [py_int_option process_group_id, py_str_option interface_name,
                     py_str_option identifier_string])"
  using literal_eval_identifying_tuple [of "(process_group_id, interface_name, identifier_string)"]
  by (simp add: identifying_tuple_def del: repr.simps)

theorem identifier_transfer_roundtrip_witness:
  "repr (identifying_tuple (Some 101, Some ''eth1'', Some ''h1->s1'')) = ''(101, 'eth1', 'h1->s1')'' \<and>
   literal_eval ''(101, 'eth1', 'h1->s1')'' = Some (PyTuple [PyInt 101, PyStr ''eth1'', PyStr ''h1->s1''])"
proof -
  have r: "repr (identifying_tuple (Some 101, Some ''eth1'', Some ''h1->s1'')) = ''(101, 'eth1', 'h1->s1')''"
    by code_simp
  show ?thesis
    using identifier_transfer_roundtrip [of "Some 101" "Some ''eth1''" "Some ''h1->s1''"]
    unfolding r by (simp add: identifying_tuple_def)
qed

section \<open>The injector's configuration: lemmas and claims\<close>


lemma target_arguments_section:
  assumes "dict_has fault_dict ''target_traffic''"
    and "dict_get fault_dict ''target_traffic'' YNull = YMap tr"
  shows "get_target_arguments_from_fault_dict fault_dict =
     Inr ((if dict_get tr ''protocol'' (YStr ''any'') \<notin> set (map YStr known_protocols)
           then YStr ''any'' else dict_get tr ''protocol'' (YStr ''any''),
           dict_get tr ''src_port'' YNull, dict_get tr ''dst_port'' YNull),
          if dict_get tr ''protocol'' (YStr ''any'') \<notin> set (map YStr known_protocols)
          then [LogError (''Fault target protocol '' @ yaml_str (dict_get tr ''protocol'' (YStr ''any''))
                  @ '' is unknown, injecting any instead'')]
          else [])"
  using assms by (simp add: get_target_arguments_from_fault_dict_def Let_def)

lemma target_arguments_absent:
  "\<not> dict_has fault_dict ''target_traffic'' \<Longrightarrow>
   get_target_arguments_from_fault_dict fault_dict = Inr ((YStr ''any'', YNull, YNull), [])"
  by (simp add: get_target_arguments_from_fault_dict_def)






lemma subscript_identifying_tuple:
  "subscript (identifying_tuple (p, i, r)) 0 = Inr (py_int_option p)"
  "subscript (identifying_tuple (p, i, r)) (Suc 0) = Inr (py_str_option i)"
  "subscript (identifying_tuple (p, i, r)) 2 = Inr (py_str_option r)"
  by (simp_all add: identifying_tuple_def)

lemma link_unit_tag:
  "\<exists>u. link_unit kind (YStr tgs) target fd (YStr (repr (identifying_tuple (p, i, Some r)))) = Inr u
       \<and> injector_tag u = tgs @ ''@'' @ r"
  by (simp add: link_unit_def literal_eval_identifying_tuple subscript_identifying_tuple
       del: repr.simps)

lemma node_unit_tag:
  "\<exists>u. node_unit kind (YStr tgs) fd (YStr (repr (identifying_tuple (p, i, Some r)))) = Inr u
       \<and> injector_tag u = tgs @ ''@'' @ r"
  by (simp add: node_unit_def literal_eval_identifying_tuple subscript_identifying_tuple
       del: repr.simps)

lemma agnostic_reference:
  "snd (snd (fst (get_mininet_agnostic_identifiers_from_identifier_string net ident))) = ident"
  by (simp add: get_mininet_agnostic_identifiers_from_identifier_string_def split: prod.splits)

lemma new_identifier_string_form:
  "\<exists>p i. repr (identifying_tuple
            (fst (get_mininet_agnostic_identifiers_from_identifier_string net (Some ref))))
         = repr (identifying_tuple (p, i, Some ref))"
proof -
  obtain p i r where t: "fst (get_mininet_agnostic_identifiers_from_identifier_string net (Some ref)) = (p, i, r)"
    by (cases "fst (get_mininet_agnostic_identifiers_from_identifier_string net (Some ref))") auto
  then have "r = Some ref" using agnostic_reference [of net "Some ref"] by simp
  then show ?thesis using t by auto
qed

lemma sequence_map_pointwise:
  "(\<And>x. x \<in> set xs \<Longrightarrow> \<exists>u. f x = Inr u \<and> Q x u) \<Longrightarrow>
   \<exists>us. sequence (map f xs) = Inr us \<and> length us = length xs \<and> (\<forall>i<length xs. Q (xs ! i) (us ! i))"
proof (induction xs)
  case Nil
  show ?case by simp
next
  case (Cons x xs)
  obtain u where u: "f x = Inr u" "Q x u" using Cons.prems [of x] by auto
  obtain us where us: "sequence (map f xs) = Inr us" "length us = length xs"
      "\<forall>i<length xs. Q (xs ! i) (us ! i)"
    using Cons.IH Cons.prems by auto
  have "\<forall>i<length (x # xs). Q ((x # xs) ! i) ((u # us) ! i)"
    using u(2) us(3) by (auto simp: nth_Cons split: nat.splits)
  then show ?case using u(1) us(1,2) by auto
qed

lemma link_units_of_references:
  "\<exists>units. sequence (map (link_unit kind (YStr tgs) target fd)
               (map YStr (new_identifier_strings net refs))) = Inr units \<and>
     length units = length refs \<and>
     (\<forall>i<length refs. injector_tag (units ! i) = tgs @ ''@'' @ refs ! i)"
proof -
  let ?f = "\<lambda>ref. link_unit kind (YStr tgs) target fd
              (YStr (repr (identifying_tuple
                 (fst (get_mininet_agnostic_identifiers_from_identifier_string net (Some ref))))))"
  have m: "map (link_unit kind (YStr tgs) target fd) (map YStr (new_identifier_strings net refs))
           = map ?f refs"
    by (simp add: new_identifier_strings_def comp_def del: repr.simps)
  have "\<exists>u. ?f ref = Inr u \<and> injector_tag u = tgs @ ''@'' @ ref" for ref
    using new_identifier_string_form [of net ref] link_unit_tag [of kind tgs target fd _ _ ref]
    by metis
  then show ?thesis
    unfolding m
    using sequence_map_pointwise [of refs ?f "\<lambda>ref u. injector_tag u = tgs @ ''@'' @ ref"]
    by blast
qed

lemma node_units_of_references:
  "\<exists>units. sequence (map (node_unit kind (YStr tgs) fd)
               (map YStr (new_identifier_strings net refs))) = Inr units \<and>
     length units = length refs \<and>
     (\<forall>i<length refs. injector_tag (units ! i) = tgs @ ''@'' @ refs ! i)"
proof -
  let ?f = "\<lambda>ref. node_unit kind (YStr tgs) fd
              (YStr (repr (identifying_tuple
                 (fst (get_mininet_agnostic_identifiers_from_identifier_string net (Some ref))))))"
  have m: "map (node_unit kind (YStr tgs) fd) (map YStr (new_identifier_strings net refs))
           = map ?f refs"
    by (simp add: new_identifier_strings_def comp_def del: repr.simps)
  have "\<exists>u. ?f ref = Inr u \<and> injector_tag u = tgs @ ''@'' @ ref" for ref
    using new_identifier_string_form [of net ref] node_unit_tag [of kind tgs fd _ _ ref]
    by metis
  then show ?thesis
    unfolding m
    using sequence_map_pointwise [of refs ?f "\<lambda>ref u. injector_tag u = tgs @ ''@'' @ ref"]
    by blast
qed

text \<open>
  C7, as amended. Take a fault entry whose type matches the link or the node pattern,
  whose tag is absent or a string, whose traffic section is absent or a mapping, and
  whose identifier list is what the controller side writes for the references \<open>refs\<close>.
  Then the injector builds exactly one fault unit per reference, in order, and the tag
  of the i-th unit is the entry's tag (the token drawn from \<^verbatim>\<open>uuid4\<close> when the tag is
  absent), then \<^verbatim>\<open>@\<close>, then the i-th reference.
\<close>

theorem fault_entry_expands_per_identifier:
  assumes fo: "fault_object = YMap ((first_key, YMap fault_dict) # others)"
    and ty: "dict_get fault_dict ''type'' YNull = YStr t"
    and known: "match_link_fault t \<noteq> None \<or> match_node_fault t \<noteq> None"
    and ids: "dict_get fault_dict ''identifiers'' YNull
                = YSeq (map YStr (new_identifier_strings net refs))"
    and tg: "dict_get fault_dict ''tag'' YNull = YNull
               \<or> (\<exists>s. dict_get fault_dict ''tag'' YNull = YStr s)"
    and tt: "\<not> dict_has fault_dict ''target_traffic''
               \<or> (\<exists>tr. dict_get fault_dict ''target_traffic'' YNull = YMap tr)"
  shows "\<exists>units lg k'.
           config_fault_object uuid4 k fault_object = Inr (units, lg, k') \<and>
           length units = length refs \<and>
           (\<forall>i<length refs.
              injector_tag (units ! i) =
                (case dict_get fault_dict ''tag'' YNull of YStr s \<Rightarrow> s | _ \<Rightarrow> uuid4 k)
                @ ''@'' @ refs ! i)"
proof -
  define tag0 where "tag0 = dict_get fault_dict ''tag'' YNull"
  define tgs where "tgs = (case tag0 of YStr s \<Rightarrow> s | _ \<Rightarrow> uuid4 k)"
  have tv: "(if tag0 = YNull then YStr (uuid4 k) else tag0) = YStr tgs"
    using tg unfolding tag0_def [symmetric] tgs_def by auto
  obtain target lg0 where ta: "get_target_arguments_from_fault_dict fault_dict = Inr (target, lg0)"
  proof (cases "dict_has fault_dict ''target_traffic''")
    case True
    then obtain tr where "dict_get fault_dict ''target_traffic'' YNull = YMap tr" using tt by auto
    then show ?thesis using target_arguments_section [OF True] that by auto
  next
    case False
    then show ?thesis using target_arguments_absent that by auto
  qed
  show ?thesis
  proof (cases "match_link_fault t")
    case (Some kind)
    obtain units where u: "sequence (map (link_unit kind (YStr tgs) target fault_dict)
               (map YStr (new_identifier_strings net refs))) = Inr units"
       "length units = length refs"
       "\<forall>i<length refs. injector_tag (units ! i) = tgs @ ''@'' @ refs ! i"
      using link_units_of_references [of kind tgs target fault_dict net refs] by auto
    have u': "sequence (map (link_unit kind (YStr tgs) target fault_dict \<circ> YStr)
               (new_identifier_strings net refs)) = Inr units"
      using u(1) by simp
    have "config_fault_object uuid4 k fault_object
            = Inr (units, lg0, if tag0 = YNull then Suc k else k)"
      unfolding fo config_fault_object_def
      by (simp add: ta ty ids Some u' Let_def tag0_def [symmetric] tv)
    then show ?thesis using u(2,3) unfolding tgs_def tag0_def by blast
  next
    case None
    then obtain kind where k: "match_node_fault t = Some kind" using known by auto
    obtain units where u: "sequence (map (node_unit kind (YStr tgs) fault_dict)
               (map YStr (new_identifier_strings net refs))) = Inr units"
       "length units = length refs"
       "\<forall>i<length refs. injector_tag (units ! i) = tgs @ ''@'' @ refs ! i"
      using node_units_of_references [of kind tgs fault_dict net refs] by auto
    have u': "sequence (map (node_unit kind (YStr tgs) fault_dict \<circ> YStr)
               (new_identifier_strings net refs)) = Inr units"
      using u(1) by simp
    have "config_fault_object uuid4 k fault_object
            = Inr (units, lg0, if tag0 = YNull then Suc k else k)"
      unfolding fo config_fault_object_def
      by (simp add: ta ty ids None k u' Let_def tag0_def [symmetric] tv)
    then show ?thesis using u(2,3) unfolding tgs_def tag0_def by blast
  qed
qed


theorem fault_entry_expands_per_identifier_witness:
  "example_fault_object = YMap ((''link_fault'', YMap example_fault_dict) # []) \<and>
   dict_get example_fault_dict ''type'' YNull = YStr ''link_fault:delay'' \<and>
   match_link_fault ''link_fault:delay'' = Some ''delay'' \<and>
   dict_get example_fault_dict ''identifiers'' YNull
     = YSeq (map YStr (new_identifier_strings example_net [''h1->s1'', ''h2''])) \<and>
   dict_get example_fault_dict ''tag'' YNull = YStr ''slow'' \<and>
   dict_get example_fault_dict ''target_traffic'' YNull
     = YMap [(''protocol'', YStr ''SCTP''), (''dst_port'', YInt 80)] \<and>
   map injector_tag (fst (projr (config_fault_object (\<lambda>k. ''uuid'') 0 example_fault_object)))
     = [''slow@h1->s1'', ''slow@h2'']"
proof -
  have h1: "example_fault_object = YMap ((''link_fault'', YMap example_fault_dict) # [])"
    by (simp add: example_fault_object_def)
  have h2: "dict_get example_fault_dict ''type'' YNull = YStr ''link_fault:delay''"
    by (simp add: example_fault_dict_def dict_get_def)
  have h3: "match_link_fault ''link_fault:delay'' = Some ''delay''"
    by code_simp
  have h4: "dict_get example_fault_dict ''identifiers'' YNull
     = YSeq (map YStr (new_identifier_strings example_net [''h1->s1'', ''h2'']))"
    by (simp add: example_fault_dict_def dict_get_def)
  have h5: "dict_get example_fault_dict ''tag'' YNull = YStr ''slow''"
    by (simp add: example_fault_dict_def dict_get_def)
  have h6: "dict_get example_fault_dict ''target_traffic'' YNull
     = YMap [(''protocol'', YStr ''SCTP''), (''dst_port'', YInt 80)]"
    by (simp add: example_fault_dict_def dict_get_def)
  have "\<exists>units lg k'.
           config_fault_object (\<lambda>k. ''uuid'') 0 example_fault_object = Inr (units, lg, k') \<and>
           length units = length [''h1->s1'', ''h2''] \<and>
           (\<forall>i<length [''h1->s1'', ''h2''].
              injector_tag (units ! i) =
                (case dict_get example_fault_dict ''tag'' YNull of YStr s \<Rightarrow> s | _ \<Rightarrow> ''uuid'')
                @ ''@'' @ [''h1->s1'', ''h2''] ! i)"
    using h3 h5 h6
    by (intro fault_entry_expands_per_identifier [OF h1 h2 _ h4]) auto
  then obtain units lg k' where
    u: "config_fault_object (\<lambda>k. ''uuid'') 0 example_fault_object = Inr (units, lg, k')"
       "length units = 2"
       "\<forall>i<2. injector_tag (units ! i) = ''slow'' @ ''@'' @ [''h1->s1'', ''h2''] ! i"
    using h5 by auto
  have "injector_tag (units ! 0) = ''slow@h1->s1''" "injector_tag (units ! 1) = ''slow@h2''"
    using u(3) by auto
  then have "map injector_tag units = [''slow@h1->s1'', ''slow@h2'']"
    using u(2) by (auto simp: list_eq_iff_nth_eq less_Suc_eq numeral_2_eq_2)
  then show ?thesis using h1 h2 h3 h4 h5 h6 u(1) by simp
qed

text \<open>
  C7 as stated fails on entries whose type matches and whose identifier list has one
  element: with the integer tag \<^verbatim>\<open>tag: 5\<close> the concatenation \<^verbatim>\<open>tag + "@"\<close> raises
  TypeError, and with \<^verbatim>\<open>target_traffic:\<close> left empty (null) the call
  \<^verbatim>\<open>traffic_object.get\<close> raises AttributeError, on a node fault as well. In both cases
  no fault unit is built. The code checks the type of neither value.
\<close>

theorem fault_entry_ill_typed_counterexample:
  "match_link_fault ''link_fault:delay'' = Some ''delay'' \<and>
   literal_eval ''(101, 'eth1', 'h1->s1')''
     = Some (PyTuple [PyInt 101, PyStr ''eth1'', PyStr ''h1->s1'']) \<and>
   config_fault_object example_uuid4 0
     (YMap [(''link_fault'',
        YMap [(''type'', YStr ''link_fault:delay''),
              (''identifiers'', YSeq [YStr ''(101, 'eth1', 'h1->s1')'']),
              (''tag'', YInt 5)])])
     = Inl TypeError \<and>
   match_node_fault ''node_fault:stop'' = Some ''stop'' \<and>
   literal_eval ''(102, None, 'h2')''
     = Some (PyTuple [PyInt 102, PyNone, PyStr ''h2'']) \<and>
   config_fault_object example_uuid4 0
     (YMap [(''node_fault'',
        YMap [(''type'', YStr ''node_fault:stop''),
              (''identifiers'', YSeq [YStr ''(102, None, 'h2')'']),
              (''tag'', YStr ''halt''),
              (''target_traffic'', YNull)])])
     = Inl AttributeError"
  by code_simp



end
